theory Spec2Isabelle
  imports Complex_Main "HOL-Library.Product_Lexorder"
begin

section \<open>Numbers and the library functions the program calls\<close>

text \<open>
  Python floats are modelled as reals: the development is about the arithmetic the
  program writes down, not about binary rounding error. Python integers are \<^typ>\<open>int\<close>.
  The exceptions that can leave the modelled functions are the three below.
\<close>

datatype error = ValueError | ZeroDivisionError | RuntimeError

text \<open>
  \<^verbatim>\<open>round(x, d)\<close>: to \<open>d\<close> decimals, a tie going to the even neighbour. The rounding
  is exact on the real number; on the binary floats of the program (and in NumPy's
  \<^verbatim>\<open>round\<close>, which scales, rounds and divides in floating point) a value at or next to a
  decimal tie can come out one unit in the last digit away from it.
\<close>

definition round_half_even :: "real \<Rightarrow> int" where
  "round_half_even y =
     (let f = \<lfloor>y\<rfloor>; r = y - of_int f
      in if r < 1 / 2 then f else if 1 / 2 < r then f + 1 else if even f then f else f + 1)"

definition py_round :: "real \<Rightarrow> nat \<Rightarrow> real" where
  "py_round x d = of_int (round_half_even (x * 10 ^ d)) / 10 ^ d"

text \<open>\<^verbatim>\<open>np.mean\<close>, \<^verbatim>\<open>np.var\<close> (population variance) and \<^verbatim>\<open>np.std\<close>.\<close>

definition np_mean :: "real list \<Rightarrow> real" where
  "np_mean xs = sum_list xs / real (length xs)"

definition np_var :: "real list \<Rightarrow> real" where
  "np_var xs = np_mean (map (\<lambda>x. (x - np_mean xs)\<^sup>2) xs)"

definition np_std :: "real list \<Rightarrow> real" where
  "np_std xs = sqrt (np_var xs)"

text \<open>\<^verbatim>\<open>np.diff\<close>: the differences of neighbours.\<close>

fun np_diff :: "real list \<Rightarrow> real list" where
  "np_diff (x # y # ys) = (y - x) # np_diff (y # ys)"
| "np_diff _ = []"

text \<open>
  \<^verbatim>\<open>np.arange(0, stop, step)\<close> for a positive step: the \<open>\<lceil>stop / step\<rceil>\<close> multiples of
  the step from 0 on. The ceiling is exact here; NumPy takes it of the floating-point
  quotient, which can give one element more where the exact quotient is an integer (a
  single timestamp 34 has 21 bins there and 20 here).
\<close>

definition np_arange0 :: "real \<Rightarrow> real \<Rightarrow> real list" where
  "np_arange0 stop step = map (\<lambda>i. real i * step) [0 ..< nat \<lceil>stop / step\<rceil>]"

text \<open>
  \<^verbatim>\<open>np.histogram(a, bins=edges)\<close>: one count per pair of neighbouring edges; every
  bin is half-open but the last, which is closed.
\<close>

fun histogram_bins :: "real list \<Rightarrow> real list \<Rightarrow> nat list" where
  "histogram_bins a [lo, hi] = [length (filter (\<lambda>x. lo \<le> x \<and> x \<le> hi) a)]"
| "histogram_bins a (lo # hi # es) =
     length (filter (\<lambda>x. lo \<le> x \<and> x < hi) a) # histogram_bins a (hi # es)"
| "histogram_bins a _ = []"

text \<open>
  \<^verbatim>\<open>sklearn.linear_model.LinearRegression\<close> on one feature: ordinary least squares
  with an intercept. \<open>fit\<close> gives (slope, intercept), \<open>predict\<close> evaluates the line and
  \<open>score\<close> is the coefficient of determination.
\<close>

definition lr_fit :: "real list \<Rightarrow> real list \<Rightarrow> real \<times> real" where
  "lr_fit X y =
     (let mx = np_mean X; my = np_mean y;
          sxy = sum_list (map (\<lambda>(a, b). (a - mx) * (b - my)) (zip X y));
          sxx = sum_list (map (\<lambda>a. (a - mx)\<^sup>2) X);
          k = sxy / sxx
      in (k, my - k * mx))"

definition lr_predict :: "real \<times> real \<Rightarrow> real list \<Rightarrow> real list" where
  "lr_predict m xs = map (\<lambda>x. snd m + fst m * x) xs"

definition lr_score :: "real \<times> real \<Rightarrow> real list \<Rightarrow> real list \<Rightarrow> real" where
  "lr_score m X y =
     (let ss_res = sum_list (map (\<lambda>(a, b). (b - (snd m + fst m * a))\<^sup>2) (zip X y));
          ss_tot = sum_list (map (\<lambda>b. (b - np_mean y)\<^sup>2) y)
      in if ss_tot = 0 then (if ss_res = 0 then 1 else 0) else 1 - ss_res / ss_tot)"

section \<open>The demand predictor (simulation/ai\_predictor.py)\<close>

record patterns =
  peak_detected :: bool
  peak_percentage :: "real option"
  avg_interarrival :: "real option"
  std_interarrival :: "real option"
  periodicity :: string

text \<open>A recommendation is kept as its priority and the condition that produced it.\<close>

datatype insight = Trend_increasing | Trend_decreasing | Peak_periods | High_variability

record forecast =
  predictions :: "real list"
  trend :: string
  confidence :: real
  slope :: "real option"
  r_squared :: "real option"
  pattern_report :: "patterns option"
  recommendations :: "(insight \<times> string) list"

definition prepare_time_series :: "real list \<Rightarrow> real list \<times> real list" where
  "prepare_time_series arrival_times =
     (if length arrival_times = 0 then ([], [])
      else
        let max_time = Max (set arrival_times);
            interval = max 1 (max_time / 20);
            bins = np_arange0 (max_time + interval) interval;
            counts = histogram_bins arrival_times bins
        in (map real [0 ..< length counts], map real counts))"

definition interpret_trend :: "real \<Rightarrow> string" where
  "interpret_trend k =
     (if k > 1 / 10 then ''increasing''
      else if k < - (1 / 10) then ''decreasing''
      else ''stable'')"

definition analyze_patterns :: "real list \<Rightarrow> patterns" where
  "analyze_patterns arrival_times =
     (if length arrival_times < 10 then
        \<lparr>peak_detected = False, peak_percentage = None, avg_interarrival = None,
         std_interarrival = None, periodicity = ''unknown''\<rparr>
      else
        let intervals = np_diff (sort arrival_times);
            mean_interval = np_mean intervals;
            std_interval = np_std intervals;
            peak_threshold = mean_interval - std_interval;
            peak_periods = length (filter (\<lambda>d. d < peak_threshold) intervals);
            peak_pct = (if length intervals > 0
                        then real peak_periods / real (length intervals) else 0)
        in \<lparr>peak_detected = (peak_pct > 2 / 10),
            peak_percentage = Some (py_round peak_pct 2),
            avg_interarrival = Some (py_round mean_interval 2),
            std_interarrival = Some (py_round std_interval 2),
            periodicity = (if std_interval > mean_interval
                           then ''high_variability'' else ''regular'')\<rparr>)"

definition generate_ai_recommendations :: "string \<Rightarrow> patterns \<Rightarrow> (insight \<times> string) list" where
  "generate_ai_recommendations tr pats =
     (if tr = ''increasing'' then [(Trend_increasing, ''high'')]
      else if tr = ''decreasing'' then [(Trend_decreasing, ''medium'')] else [])
     @ (if peak_detected pats then [(Peak_periods, ''high'')] else [])
     @ (if periodicity pats = ''high_variability'' then [(High_variability, ''medium'')] else [])"

definition insufficient_data :: forecast where
  "insufficient_data =
     \<lparr>predictions = [], trend = ''insufficient_data'', confidence = 0, slope = None,
      r_squared = None, pattern_report = None, recommendations = []\<rparr>"

text \<open>
  The indices at which the fitted line is evaluated:
  \<^verbatim>\<open>range(last_index, last_index + forecast_periods)\<close> with
  \<^verbatim>\<open>last_index = len(arrival_times)\<close>.
\<close>

definition future_indices :: "real list \<Rightarrow> int \<Rightarrow> real list" where
  "future_indices arrival_times forecast_periods =
     (let last_index = int (length arrival_times)
      in map real_of_int [last_index .. last_index + forecast_periods - 1])"

text \<open>
  With no index to predict at, the array handed to \<^verbatim>\<open>model.predict\<close> is one-dimensional
  and the library refuses it with a ValueError.
\<close>

definition predict_demand :: "real list \<Rightarrow> int \<Rightarrow> error + forecast" where
  "predict_demand arrival_times forecast_periods =
     (if length arrival_times < 5 then Inr insufficient_data
      else
        let (X, y) = prepare_time_series arrival_times
        in if length X < 3 then Inr insufficient_data
           else
             let model = lr_fit X y;
                 idx = future_indices arrival_times forecast_periods
             in if idx = [] then Inl ValueError
                else
                  let preds = lr_predict model idx;
                      k = fst model;
                      tr = interpret_trend k;
                      conf = lr_score model X y;
                      pats = analyze_patterns arrival_times
                  in Inr \<lparr>predictions = map (\<lambda>p. py_round p 2) preds,
                          trend = tr,
                          confidence = py_round conf 4,
                          slope = Some (py_round k 4),
                          r_squared = Some (py_round conf 4),
                          pattern_report = Some pats,
                          recommendations = generate_ai_recommendations tr pats\<rparr>)"

section \<open>The simulation engine (simulation/cafeteria\_model.py)\<close>

text \<open>
  The engine runs on SimPy. Its scheduler keeps a heap of entries
  (time, priority, event id, event) and always processes the least one; priority 0 is
  URGENT (process initialisation, the \<open>until\<close> event), priority 1 is NORMAL (timeouts,
  granted requests, releases, finished processes). An event here is such an entry
  together with what its callback resumes; the local variables a suspended customer
  process still needs (its arrival time, its service time) travel with the event.
\<close>

datatype kind =
    Initialize_generator
  | Initialize_customer nat
  | Timeout_generator
  | Request_granted nat real
  | Timeout_service nat real real
  | Release_done
  | Process_ended
  | Stop_simulation

record event =
  time :: real
  priority :: nat
  eid :: nat
  what :: kind

definition URGENT :: nat where "URGENT = 0"
definition NORMAL :: nat where "NORMAL = 1"

definition heap_key :: "event \<Rightarrow> real \<times> nat \<times> nat" where
  "heap_key e = (time e, priority e, eid e)"

text \<open>
  One record holds the object's attributes (the five parameters and the nine metrics of
  \<^verbatim>\<open>__init__\<close>) and what \<^verbatim>\<open>run\<close> creates: the environment (clock, event counter,
  heap), the resource (its users and its queue of waiting requests, each with the
  arrival time of the customer that made it), the generator's \<^verbatim>\<open>customer_id\<close> and the
  number of values taken from the random source so far.
\<close>

record simulation =
  arrival_rate :: real
  service_rate :: real
  num_servers :: int
  sim_time :: real
  queue_capacity :: int
  customers_served :: nat
  customers_rejected :: nat
  wait_times :: "real list"
  service_times :: "real list"
  system_times :: "real list"
  queue_lengths :: "nat list"
  arrival_times :: "real list"
  server_busy_time :: real
  max_queue_length :: nat
  now :: real
  next_eid :: nat
  agenda :: "event list"
  users :: "nat list"
  queue :: "(nat \<times> real) list"
  customer_id :: nat
  draws_used :: nat

definition cafeteria_simulation :: "real \<Rightarrow> real \<Rightarrow> int \<Rightarrow> real \<Rightarrow> int \<Rightarrow> simulation" where
  "cafeteria_simulation lam mu c t cap =
     \<lparr>arrival_rate = lam, service_rate = mu, num_servers = c, sim_time = t,
      queue_capacity = cap, customers_served = 0, customers_rejected = 0, wait_times = [],
      service_times = [], system_times = [], queue_lengths = [], arrival_times = [],
      server_busy_time = 0, max_queue_length = 0, now = 0, next_eid = 0, agenda = [],
      users = [], queue = [], customer_id = 0, draws_used = 0\<rparr>"

text \<open>
  \<^verbatim>\<open>random.expovariate(lambd)\<close> is \<^verbatim>\<open>-log(1 - random()) / lambd\<close>. The random source is a
  parameter: \<open>rnd i\<close> is the \<open>i\<close>-th value of \<^verbatim>\<open>-log(1 - random())\<close>, shared by the
  generator and the customers in the order they draw.
\<close>

definition expovariate :: "(nat \<Rightarrow> real) \<Rightarrow> real \<Rightarrow> simulation \<Rightarrow> error + real \<times> simulation" where
  "expovariate rnd lambd s =
     (if lambd = 0 then Inl ZeroDivisionError
      else Inr (rnd (draws_used s) / lambd, s\<lparr>draws_used := draws_used s + 1\<rparr>))"

text \<open>\<^verbatim>\<open>env.schedule(event, priority, delay)\<close>.\<close>

definition schedule :: "kind \<Rightarrow> nat \<Rightarrow> real \<Rightarrow> simulation \<Rightarrow> simulation" where
  "schedule k prio delay s =
     s\<lparr>agenda := agenda s @ [\<lparr>time = now s + delay, priority = prio, eid = next_eid s, what = k\<rparr>],
       next_eid := next_eid s + 1\<rparr>"

text \<open>
  \<^verbatim>\<open>env.timeout(delay)\<close> refuses a negative delay. This exception and the one of
  \<open>expovariate\<close> are raised inside a process: the process fails, its failure is scheduled
  at the current time, and the scheduler re-raises it out of \<^verbatim>\<open>env.run\<close> at that same
  instant, before the clock moves and before the stop, which lies later. A run in which
  a process raises therefore ends with the first such exception, and the model lets it
  leave at once.
\<close>

definition timeout :: "kind \<Rightarrow> real \<Rightarrow> simulation \<Rightarrow> error + simulation" where
  "timeout k delay s = (if delay < 0 then Inl ValueError else Inr (schedule k NORMAL delay s))"

text \<open>
  The resource's \<^verbatim>\<open>_trigger_put\<close>: it looks at the head of the queue, grants it when a
  server is free (\<^verbatim>\<open>len(users) < capacity\<close>) and stops after this one request.
\<close>

definition trigger_put :: "simulation \<Rightarrow> simulation" where
  "trigger_put s =
     (case queue s of
        [] \<Rightarrow> s
      | (cid, arrival_time) # rest \<Rightarrow>
          if int (length (users s)) < num_servers s
          then schedule (Request_granted cid arrival_time) NORMAL 0
                 (s\<lparr>users := users s @ [cid], queue := rest\<rparr>)
          else s)"

text \<open>The generator from the top of its loop to the \<^verbatim>\<open>yield\<close>.\<close>

definition generator_wait :: "(nat \<Rightarrow> real) \<Rightarrow> simulation \<Rightarrow> error + simulation" where
  "generator_wait rnd s =
     (case expovariate rnd (arrival_rate s) s of
        Inl e \<Rightarrow> Inl e
      | Inr (interarrival_time, s1) \<Rightarrow> timeout Timeout_generator interarrival_time s1)"

text \<open>The generator from the \<^verbatim>\<open>yield\<close> on, around the loop and to the \<^verbatim>\<open>yield\<close> again.\<close>

definition customer_generator :: "(nat \<Rightarrow> real) \<Rightarrow> simulation \<Rightarrow> error + simulation" where
  "customer_generator rnd s =
     (let s1 = s\<lparr>customer_id := customer_id s + 1, arrival_times := arrival_times s @ [now s]\<rparr>;
          s2 = (if int (length (queue s1)) < queue_capacity s1
                then schedule (Initialize_customer (customer_id s1)) URGENT 0 s1
                else s1\<lparr>customers_rejected := customers_rejected s1 + 1\<rparr>)
      in generator_wait rnd s2)"

text \<open>\<^verbatim>\<open>customer_process\<close> from its start to \<^verbatim>\<open>yield request\<close>.\<close>

definition customer_process_start :: "nat \<Rightarrow> simulation \<Rightarrow> simulation" where
  "customer_process_start cid s =
     (let arrival_time = now s;
          queue_length = length (queue s);
          s1 = s\<lparr>queue_lengths := queue_lengths s @ [queue_length],
                 max_queue_length := max (max_queue_length s) queue_length\<rparr>
      in trigger_put (s1\<lparr>queue := queue s1 @ [(cid, arrival_time)]\<rparr>))"

text \<open>\<^verbatim>\<open>customer_process\<close> from the granted request to the service timeout.\<close>

definition customer_process_service ::
  "(nat \<Rightarrow> real) \<Rightarrow> nat \<Rightarrow> real \<Rightarrow> simulation \<Rightarrow> error + simulation" where
  "customer_process_service rnd cid arrival_time s =
     (let wait_time = now s - arrival_time;
          s1 = s\<lparr>wait_times := wait_times s @ [wait_time]\<rparr>
      in case expovariate rnd (service_rate s1) s1 of
           Inl e \<Rightarrow> Inl e
         | Inr (service_time, s2) \<Rightarrow>
             timeout (Timeout_service cid arrival_time service_time) service_time
               (s2\<lparr>service_times := service_times s2 @ [service_time]\<rparr>))"

text \<open>
  \<^verbatim>\<open>customer_process\<close> from the end of the service to its own end: the metrics, then the
  \<^verbatim>\<open>with\<close> block releases the server (the request leaves \<open>users\<close> at once, the release
  event is scheduled) and the finished process is scheduled.
\<close>

definition customer_process_end :: "nat \<Rightarrow> real \<Rightarrow> real \<Rightarrow> simulation \<Rightarrow> simulation" where
  "customer_process_end cid arrival_time service_time s =
     (let system_time = now s - arrival_time;
          s1 = s\<lparr>system_times := system_times s @ [system_time],
                 customers_served := customers_served s + 1,
                 server_busy_time := server_busy_time s + service_time\<rparr>;
          s2 = schedule Release_done NORMAL 0 (s1\<lparr>users := remove1 cid (users s1)\<rparr>)
      in schedule Process_ended NORMAL 0 s2)"

datatype step_result = Continue simulation | Stopped simulation | Failed error

definition lift :: "error + simulation \<Rightarrow> step_result" where
  "lift r = (case r of Inl e \<Rightarrow> Failed e | Inr s \<Rightarrow> Continue s)"

text \<open>
  \<^verbatim>\<open>self._now, _, _, event = heappop(self._queue)\<close>: the least entry leaves the heap and
  the clock moves to its time.
\<close>

definition heappop :: "simulation \<Rightarrow> event \<times> simulation" where
  "heappop s =
     (let e = arg_min_list heap_key (agenda s)
      in (e, s\<lparr>now := time e, agenda := remove1 e (agenda s)\<rparr>))"

text \<open>The callback of an event: the process it resumes runs to its next \<^verbatim>\<open>yield\<close>.\<close>

definition callback :: "(nat \<Rightarrow> real) \<Rightarrow> kind \<Rightarrow> simulation \<Rightarrow> step_result" where
  "callback rnd k s =
     (case k of
        Initialize_generator \<Rightarrow> lift (generator_wait rnd s)
      | Initialize_customer cid \<Rightarrow> Continue (customer_process_start cid s)
      | Timeout_generator \<Rightarrow> lift (customer_generator rnd s)
      | Request_granted cid a \<Rightarrow> lift (customer_process_service rnd cid a s)
      | Timeout_service cid a st \<Rightarrow> Continue (customer_process_end cid a st s)
      | Release_done \<Rightarrow> Continue (trigger_put s)
      | Process_ended \<Rightarrow> Continue s
      | Stop_simulation \<Rightarrow> Stopped s)"

text \<open>\<^verbatim>\<open>env.step()\<close>; an empty heap cannot be stepped.\<close>

definition step :: "(nat \<Rightarrow> real) \<Rightarrow> simulation \<Rightarrow> step_result" where
  "step rnd s =
     (if agenda s = [] then Failed RuntimeError
      else let (e, s1) = heappop s in callback rnd (what e) s1)"

datatype 'a outcome = Returned 'a | Raised error | Out_of_fuel

text \<open>
  The loop \<^verbatim>\<open>while True: self.step()\<close> of \<^verbatim>\<open>env.run\<close>, which only the \<open>until\<close> event or
  an exception leaves. The first argument bounds the number of events processed.
\<close>

fun env_run :: "nat \<Rightarrow> (nat \<Rightarrow> real) \<Rightarrow> simulation \<Rightarrow> simulation outcome" where
  "env_run 0 rnd s = Out_of_fuel"
| "env_run (Suc n) rnd s =
     (case step rnd s of
        Continue s' \<Rightarrow> env_run n rnd s'
      | Stopped s' \<Rightarrow> Returned s'
      | Failed e \<Rightarrow> Raised e)"

text \<open>
  \<^verbatim>\<open>run\<close> creates a new environment and a new resource; the metrics are those of the
  object.
\<close>

definition new_environment :: "simulation \<Rightarrow> simulation" where
  "new_environment s =
     s\<lparr>now := 0, next_eid := 0, agenda := [], users := [], queue := [], customer_id := 0\<rparr>"

text \<open>
  \<^verbatim>\<open>run\<close> up to the return of \<^verbatim>\<open>env.run(until=self.sim_time)\<close>: the resource refuses a
  capacity that is not positive, the generator is started, and \<^verbatim>\<open>env.run\<close> refuses a
  horizon that is not after the current time before it schedules the \<open>until\<close> event.
\<close>

definition start :: "simulation \<Rightarrow> error + simulation" where
  "start s =
     (let env = new_environment s
      in if num_servers env \<le> 0 then Inl ValueError
         else
           let s1 = schedule Initialize_generator URGENT 0 env
           in if sim_time s1 \<le> now s1 then Inl ValueError
              else Inr (schedule Stop_simulation URGENT (sim_time s1 - now s1) s1))"

definition run_until :: "nat \<Rightarrow> (nat \<Rightarrow> real) \<Rightarrow> simulation \<Rightarrow> simulation outcome" where
  "run_until fuel rnd s =
     (case start s of Inl e \<Rightarrow> Raised e | Inr s0 \<Rightarrow> env_run fuel rnd s0)"

subsection \<open>The metrics\<close>

text \<open>
  The dictionary \<^verbatim>\<open>calculate_metrics\<close> returns. A key that has the name of an attribute
  of the simulation object carries the prefix \<open>out\<close>; \<^verbatim>\<open>input_params\<close> is the tuple of the
  five parameters.
\<close>

record results =
  out_customers_served :: nat
  out_customers_rejected :: nat
  avg_wait_time :: real
  avg_service_time :: real
  avg_system_time :: real
  avg_queue_length :: real
  out_max_queue_length :: nat
  server_utilization :: real
  var_wait_time :: real
  var_service_time :: real
  std_wait_time :: real
  std_service_time :: real
  effective_arrival_rate :: real
  rejection_probability :: real
  out_wait_times :: "real list"
  out_service_times :: "real list"
  out_queue_lengths :: "nat list"
  out_arrival_times :: "real list"
  input_params :: "real \<times> real \<times> int \<times> real \<times> int"

definition calculate_metrics :: "simulation \<Rightarrow> results" where
  "calculate_metrics s =
     (let avg_wait = (if wait_times s \<noteq> [] then np_mean (wait_times s) else 0);
          avg_service = (if service_times s \<noteq> [] then np_mean (service_times s) else 0);
          avg_system = (if system_times s \<noteq> [] then np_mean (system_times s) else 0);
          avg_queue = (if queue_lengths s \<noteq> [] then np_mean (map real (queue_lengths s)) else 0);
          total_server_time = real_of_int (num_servers s) * sim_time s;
          utilization = (if total_server_time > 0
                         then server_busy_time s / total_server_time else 0);
          var_wait = (if length (wait_times s) > 1 then np_var (wait_times s) else 0);
          var_service = (if length (service_times s) > 1 then np_var (service_times s) else 0);
          effective_rate = (if sim_time s > 0
                            then real (length (arrival_times s)) / sim_time s else 0);
          total_arrivals = customers_served s + customers_rejected s;
          rejection = (if total_arrivals > 0
                       then real (customers_rejected s) / real total_arrivals else 0)
      in \<lparr>out_customers_served = customers_served s,
          out_customers_rejected = customers_rejected s,
          avg_wait_time = py_round avg_wait 2,
          avg_service_time = py_round avg_service 2,
          avg_system_time = py_round avg_system 2,
          avg_queue_length = py_round avg_queue 2,
          out_max_queue_length = max_queue_length s,
          server_utilization = py_round utilization 4,
          var_wait_time = py_round var_wait 2,
          var_service_time = py_round var_service 2,
          std_wait_time = py_round (sqrt var_wait) 2,
          std_service_time = py_round (sqrt var_service) 2,
          effective_arrival_rate = py_round effective_rate 4,
          rejection_probability = py_round rejection 4,
          out_wait_times = map (\<lambda>t. py_round t 2) (take 100 (wait_times s)),
          out_service_times = map (\<lambda>t. py_round t 2) (take 100 (service_times s)),
          out_queue_lengths = take 100 (queue_lengths s),
          out_arrival_times = map (\<lambda>t. py_round t 2) (take 100 (arrival_times s)),
          input_params = (arrival_rate s, service_rate s, num_servers s, sim_time s,
                          queue_capacity s)\<rparr>)"

text \<open>\<^verbatim>\<open>run\<close>: the simulation, then the metrics of the state it leaves.\<close>

definition run :: "nat \<Rightarrow> (nat \<Rightarrow> real) \<Rightarrow> simulation \<Rightarrow> results outcome" where
  "run fuel rnd s =
     (case run_until fuel rnd s of
        Returned s' \<Rightarrow> Returned (calculate_metrics s')
      | Raised e \<Rightarrow> Raised e
      | Out_of_fuel \<Rightarrow> Out_of_fuel)"

section \<open>The statistical analysis (simulation/statistics.py)\<close>

text \<open>
  The functions of SciPy the module calls are parameters: each is a function of the
  sample it is given. \<open>t_ppf p df\<close> is the quantile function of Student's t distribution;
  the tests give a statistic and a p-value.
\<close>

record scipy_stats =
  skew :: "real list \<Rightarrow> real"
  kurtosis :: "real list \<Rightarrow> real"
  shapiro :: "real list \<Rightarrow> real \<times> real"
  kstest_expon :: "real list \<Rightarrow> real \<times> real \<Rightarrow> real \<times> real"
  t_ppf :: "real \<Rightarrow> nat \<Rightarrow> real"
  ttest_1samp :: "real list \<Rightarrow> real \<Rightarrow> real \<times> real"
  pearsonr :: "real list \<Rightarrow> real list \<Rightarrow> real \<times> real"

text \<open>\<^verbatim>\<open>np.median\<close>, \<^verbatim>\<open>np.percentile\<close> (linear interpolation) and \<^verbatim>\<open>stats.sem\<close>.\<close>

definition np_median :: "real list \<Rightarrow> real" where
  "np_median xs =
     (let ys = sort xs; n = length ys
      in if odd n then ys ! (n div 2) else (ys ! (n div 2 - 1) + ys ! (n div 2)) / 2)"

definition np_percentile :: "real list \<Rightarrow> real \<Rightarrow> real" where
  "np_percentile xs q =
     (let ys = sort xs;
          h = q / 100 * real (length ys - 1);
          lo = nat \<lfloor>h\<rfloor>;
          hi = min (lo + 1) (length ys - 1)
      in ys ! lo + (h - real lo) * (ys ! hi - ys ! lo))"

definition sem :: "real list \<Rightarrow> real" where
  "sem xs =
     sqrt (sum_list (map (\<lambda>x. (x - np_mean xs)\<^sup>2) xs) / real (length xs - 1))
       / sqrt (real (length xs))"

text \<open>
  \<^verbatim>\<open>StatisticalAnalysis(simulation_results)\<close> keeps the dictionary and reads its two
  series.
\<close>

record statistical_analysis =
  sa_results :: results
  self_wait_times :: "real list"
  self_service_times :: "real list"

definition StatisticalAnalysis :: "results \<Rightarrow> statistical_analysis" where
  "StatisticalAnalysis simulation_results =
     \<lparr>sa_results = simulation_results,
      self_wait_times = out_wait_times simulation_results,
      self_service_times = out_service_times simulation_results\<rparr>"

text \<open>The two dictionaries of descriptive statistics, as lists of key and value.\<close>

definition descriptive_statistics ::
  "scipy_stats \<Rightarrow> statistical_analysis \<Rightarrow> (string \<times> real) list \<times> (string \<times> real) list" where
  "descriptive_statistics lib self =
     (let w = self_wait_times self; sv = self_service_times self;
          g = (\<lambda>xs v. if length xs > 0 then py_round v 2 else 0);
          g3 = (\<lambda>xs v. if length xs > 2 then py_round v 2 else 0)
      in ([(''mean'', g w (np_mean w)), (''median'', g w (np_median w)),
           (''std'', g w (np_std w)), (''variance'', g w (np_var w)),
           (''min'', g w (Min (set w))), (''max'', g w (Max (set w))),
           (''q25'', g w (np_percentile w 25)), (''q75'', g w (np_percentile w 75)),
           (''skewness'', g3 w (skew lib w)), (''kurtosis'', g3 w (kurtosis lib w))],
          [(''mean'', g sv (np_mean sv)), (''median'', g sv (np_median sv)),
           (''std'', g sv (np_std sv)), (''variance'', g sv (np_var sv)),
           (''min'', g sv (Min (set sv))), (''max'', g sv (Max (set sv)))]))"

record test_report =
  test :: string
  statistic :: real
  p_value :: real
  verdict :: bool

text \<open>
  The dictionary of \<^verbatim>\<open>test_distributions\<close>: an absent key is \<open>None\<close>. The verdict is
  \<^verbatim>\<open>is_normal\<close> in the first report and \<^verbatim>\<open>is_exponential\<close> in the second.
\<close>

definition test_distributions ::
  "scipy_stats \<Rightarrow> statistical_analysis \<Rightarrow> test_report option \<times> test_report option" where
  "test_distributions lib self =
     (let w = self_wait_times self; sv = self_service_times self
      in ((if length w \<ge> 3 then
             let (stat_wait, p_wait) = shapiro lib (take (min (length w) 5000) w)
             in Some \<lparr>test = ''Shapiro-Wilk'', statistic = py_round stat_wait 4,
                      p_value = py_round p_wait 4, verdict = (p_wait > 5 / 100)\<rparr>
           else None),
          (if length sv \<ge> 3 then
             let mean_service = np_mean sv
             in if mean_service > 0 then
                  let (stat_exp, p_exp) = kstest_expon lib sv (0, mean_service)
                  in Some \<lparr>test = ''Kolmogorov-Smirnov'', statistic = py_round stat_exp 4,
                           p_value = py_round p_exp 4, verdict = (p_exp > 5 / 100)\<rparr>
                else None
           else None)))"

record interval_report =
  confidence_level :: real
  mean :: real
  lower_bound :: real
  upper_bound :: real
  margin_of_error :: real

text \<open>
  \<^verbatim>\<open>confidence_intervals\<close>: the empty dictionary is \<open>None\<close>, the dictionary with the one
  key \<^verbatim>\<open>wait_time_ci\<close> is \<open>Some\<close> of its value.
\<close>

definition confidence_intervals ::
  "scipy_stats \<Rightarrow> statistical_analysis \<Rightarrow> real \<Rightarrow> interval_report option" where
  "confidence_intervals lib self conf =
     (let w = self_wait_times self
      in if length w < 2 then None
         else
           let m = np_mean w;
               std_error = sem w;
               margin = std_error * t_ppf lib ((1 + conf) / 2) (length w - 1)
           in Some \<lparr>confidence_level = conf, mean = py_round m 2,
                    lower_bound = py_round (m - margin) 2,
                    upper_bound = py_round (m + margin) 2,
                    margin_of_error = py_round margin 2\<rparr>)"

record ttest_report =
  hypothesized_mean :: real
  t_statistic :: real
  t_p_value :: real
  reject_null :: bool
  actual_mean :: real

definition hypothesis_tests :: "scipy_stats \<Rightarrow> statistical_analysis \<Rightarrow> ttest_report option" where
  "hypothesis_tests lib self =
     (let w = self_wait_times self
      in if length w \<ge> 2 then
           let (t_stat, p) = ttest_1samp lib w 5
           in Some \<lparr>hypothesized_mean = 5, t_statistic = py_round t_stat 4,
                    t_p_value = py_round p 4, reject_null = (p < 5 / 100),
                    actual_mean = py_round (np_mean w) 2\<rparr>
         else None)"

text \<open>
  The interpretation is the pair of the strength and the direction (the source joins
  them into one sentence, spelling the first strength with an accent).
\<close>

definition interpret_correlation :: "real \<Rightarrow> string \<times> string" where
  "interpret_correlation r =
     (let abs_r = \<bar>r\<bar>;
          strength = (if abs_r < 3 / 10 then ''debil''
                      else if abs_r < 7 / 10 then ''moderada'' else ''fuerte'');
          direction = (if r > 0 then ''positiva'' else ''negativa'')
      in (strength, direction))"

record correlation_report =
  correlation_coefficient :: real
  c_p_value :: real
  interpreted :: "string \<times> string"

definition correlation_analysis ::
  "scipy_stats \<Rightarrow> statistical_analysis \<Rightarrow> correlation_report option" where
  "correlation_analysis lib self =
     (if length (self_wait_times self) < 2 \<or> length (self_service_times self) < 2 then None
      else
        let min_len = min (length (self_wait_times self)) (length (self_service_times self));
            wait = take min_len (self_wait_times self);
            service = take min_len (self_service_times self)
        in if min_len \<ge> 2 then
             let (correlation, p) = pearsonr lib wait service
             in Some \<lparr>correlation_coefficient = py_round correlation 4,
                      c_p_value = py_round p 4,
                      interpreted = interpret_correlation correlation\<rparr>
           else None)"

record analysis =
  descriptive_stats :: "(string \<times> real) list \<times> (string \<times> real) list"
  distributions :: "test_report option \<times> test_report option"
  confidence_interval_report :: "interval_report option"
  hypothesis_test_report :: "ttest_report option"
  correlation :: "correlation_report option"

text \<open>\<^verbatim>\<open>analyze\<close> calls \<^verbatim>\<open>confidence_intervals\<close> with its default level 0.95.\<close>

definition analyze :: "scipy_stats \<Rightarrow> statistical_analysis \<Rightarrow> analysis" where
  "analyze lib self =
     \<lparr>descriptive_stats = descriptive_statistics lib self,
      distributions = test_distributions lib self,
      confidence_interval_report = confidence_intervals lib self (95 / 100),
      hypothesis_test_report = hypothesis_tests lib self,
      correlation = correlation_analysis lib self\<rparr>"

section \<open>The request handler (app.py)\<close>

text \<open>
  \<^verbatim>\<open>simulate\<close> from the call of \<^verbatim>\<open>run\<close> on: the results, their analysis and the forecast
  from the arrival times of the results. Any exception becomes the error response.
\<close>

definition simulate ::
  "scipy_stats \<Rightarrow> nat \<Rightarrow> (nat \<Rightarrow> real) \<Rightarrow> simulation \<Rightarrow> (results \<times> analysis \<times> forecast) outcome" where
  "simulate lib fuel rnd sim =
     (case run fuel rnd sim of
        Returned res \<Rightarrow>
          (let statistical = analyze lib (StatisticalAnalysis res)
           in case predict_demand (out_arrival_times res) 10 of
                Inl e \<Rightarrow> Raised e
              | Inr fc \<Rightarrow> Returned (res, statistical, fc))
      | Raised e \<Rightarrow> Raised e
      | Out_of_fuel \<Rightarrow> Out_of_fuel)"

section \<open>An instance of the statistics library for the examples\<close>

text \<open>
  A stand-in for SciPy with constant answers, used where a statement is instantiated
  at concrete data. Its quantile function is symmetric about one half.
\<close>

definition demo_stats :: scipy_stats where
  "demo_stats =
     \<lparr>skew = (\<lambda>_. 0), kurtosis = (\<lambda>_. 0), shapiro = (\<lambda>_. (1, 1)),
      kstest_expon = (\<lambda>_ _. (0, 1)), t_ppf = (\<lambda>p df. if 1 / 2 \<le> p then 2 else - 2),
      ttest_1samp = (\<lambda>_ _. (0, 1)), pearsonr = (\<lambda>_ _. (0, 1))\<rparr>"

section \<open>What the event loop maintains\<close>

text \<open>
  The kinds of event that stand for a customer: a started process that has not yet made
  its request, a granted request, a running service. \<open>pending P\<close> counts the scheduled
  events of a kind, and a customer in flight is one admitted and not yet through.
\<close>

fun is_customer_start :: "kind \<Rightarrow> bool" where
  "is_customer_start (Initialize_customer _) = True"
| "is_customer_start _ = False"

fun is_granted :: "kind \<Rightarrow> bool" where
  "is_granted (Request_granted _ _) = True"
| "is_granted _ = False"

fun is_service :: "kind \<Rightarrow> bool" where
  "is_service (Timeout_service _ _ _) = True"
| "is_service _ = False"

definition pending :: "(kind \<Rightarrow> bool) \<Rightarrow> simulation \<Rightarrow> nat" where
  "pending P s = length (filter (\<lambda>e. P (what e)) (agenda s))"

definition in_flight :: "simulation \<Rightarrow> nat" where
  "in_flight s =
     pending is_customer_start s + length (queue s) + pending is_granted s + pending is_service s"

text \<open>
  The counts: every arrival is served, rejected or in flight; every service begun is
  completed or scheduled to complete; a system time is recorded per customer served and
  a wait time per service begun.
\<close>

definition inv_count :: "simulation \<Rightarrow> bool" where
  "inv_count s \<longleftrightarrow>
     length (arrival_times s) = customers_served s + customers_rejected s + in_flight s
     \<and> length (service_times s) = customers_served s + pending is_service s
     \<and> length (system_times s) = customers_served s
     \<and> length (wait_times s) = length (service_times s)"

text \<open>The events scheduled as URGENT when a process is created.\<close>

fun is_start :: "kind \<Rightarrow> bool" where
  "is_start Initialize_generator = True"
| "is_start (Initialize_customer _) = True"
| "is_start _ = False"

text \<open>
  The discipline of the schedule: the clock is in \<open>[0, sim_time)\<close> and no event lies before
  it; a process start lies at the clock with priority URGENT and there is at most one;
  the stop lies at \<open>sim_time\<close> with priority URGENT and is scheduled; every other event
  has priority NORMAL.
\<close>

definition inv_sched :: "simulation \<Rightarrow> bool" where
  "inv_sched s \<longleftrightarrow>
     0 \<le> now s \<and> now s < sim_time s
     \<and> (\<forall>e\<in>set (agenda s). now s \<le> time e)
     \<and> (\<forall>e\<in>set (agenda s). is_start (what e) \<longrightarrow> time e = now s \<and> priority e = URGENT)
     \<and> (\<forall>e\<in>set (agenda s). \<not> is_start (what e) \<and> what e \<noteq> Stop_simulation
            \<longrightarrow> priority e = NORMAL)
     \<and> (\<forall>e\<in>set (agenda s). what e = Stop_simulation
            \<longrightarrow> time e = sim_time s \<and> priority e = URGENT)
     \<and> (\<exists>e\<in>set (agenda s). what e = Stop_simulation)
     \<and> pending is_start s \<le> 1"

text \<open>The state between the pop of an event that is not the stop and its callback.\<close>

definition popped :: "simulation \<Rightarrow> bool" where
  "popped s \<longleftrightarrow>
     0 \<le> now s \<and> now s < sim_time s
     \<and> (\<forall>e\<in>set (agenda s). now s \<le> time e)
     \<and> (\<forall>e\<in>set (agenda s). \<not> is_start (what e))
     \<and> (\<forall>e\<in>set (agenda s). what e \<noteq> Stop_simulation \<longrightarrow> priority e = NORMAL)
     \<and> (\<forall>e\<in>set (agenda s). what e = Stop_simulation
            \<longrightarrow> time e = sim_time s \<and> priority e = URGENT)
     \<and> (\<exists>e\<in>set (agenda s). what e = Stop_simulation)"

text \<open>Every recorded arrival lies in \<open>[0, sim_time)\<close>.\<close>

definition inv_horizon :: "simulation \<Rightarrow> bool" where
  "inv_horizon s \<longleftrightarrow> (\<forall>a\<in>set (arrival_times s). 0 \<le> a \<and> a < sim_time s)"

text \<open>
  The bounds: the waiting line, with the admitted customer that has not yet made its
  request, fits the queue capacity; every granted request and every running service holds
  a server; the users fit the number of servers.
\<close>

definition inv_bounds :: "simulation \<Rightarrow> bool" where
  "inv_bounds s \<longleftrightarrow>
     int (length (queue s)) + int (pending is_customer_start s) \<le> max 0 (queue_capacity s)
     \<and> pending is_granted s + pending is_service s \<le> length (users s)
     \<and> int (length (users s)) \<le> num_servers s"

text \<open>
  The duration of the service an event completes, and the part of it that lies before
  the time \<open>t\<close>; both are 0 for the other events.
\<close>

definition service_duration :: "event \<Rightarrow> real" where
  "service_duration e = (case what e of Timeout_service _ _ st \<Rightarrow> st | _ \<Rightarrow> 0)"

definition elapsed_at :: "real \<Rightarrow> event \<Rightarrow> real" where
  "elapsed_at t e = (case what e of Timeout_service _ _ st \<Rightarrow> t - (time e - st) | _ \<Rightarrow> 0)"

definition in_service_time :: "simulation \<Rightarrow> real" where
  "in_service_time s = (\<Sum>e\<leftarrow>agenda s. elapsed_at (now s) e)"

text \<open>
  The busy time accumulated by the completed services, with the time the running
  services have already taken, is at most the server time that has passed.
\<close>

definition inv_busy :: "simulation \<Rightarrow> bool" where
  "inv_busy s \<longleftrightarrow>
     0 \<le> server_busy_time s
     \<and> (\<forall>e\<in>set (agenda s). 0 \<le> service_duration e \<and> 0 \<le> elapsed_at (now s) e)
     \<and> server_busy_time s + in_service_time s \<le> real_of_int (num_servers s) * now s"

text \<open>
  The running maximum is the maximum of the queue-length samples, and every arrival is
  a sample (an admission), a rejection or an admitted customer about to be sampled.
\<close>

definition inv_metrics :: "simulation \<Rightarrow> bool" where
  "inv_metrics s \<longleftrightarrow>
     max_queue_length s = fold max (queue_lengths s) 0
     \<and> length (queue_lengths s) + customers_rejected s + pending is_customer_start s
         = length (arrival_times s)"

text \<open>With a queue capacity that is not positive nobody is ever admitted.\<close>

definition inv_idle :: "simulation \<Rightarrow> bool" where
  "inv_idle s \<longleftrightarrow>
     (queue_capacity s \<le> 0 \<longrightarrow>
        queue s = [] \<and> pending is_customer_start s = 0 \<and> pending is_granted s = 0
        \<and> pending is_service s = 0 \<and> customers_served s = 0)"

text \<open>What holds of every state the event loop reaches.\<close>

definition inv :: "simulation \<Rightarrow> bool" where
  "inv s \<longleftrightarrow>
     inv_count s \<and> inv_sched s \<and> inv_horizon s \<and> inv_bounds s \<and> inv_busy s
     \<and> inv_metrics s \<and> inv_idle s"

text \<open>
  The state after \<open>n\<close> events of the loop, or the result that ended it before: what an
  observer sees who looks at the simulation between two events.
\<close>

fun steps :: "nat \<Rightarrow> (nat \<Rightarrow> real) \<Rightarrow> simulation \<Rightarrow> step_result" where
  "steps 0 rnd s = Continue s"
| "steps (Suc n) rnd s =
     (case step rnd s of
        Continue s' \<Rightarrow> steps n rnd s'
      | Stopped s' \<Rightarrow> Stopped s'
      | Failed e \<Rightarrow> Failed e)"

text \<open>
  Two runs in which every draw of the random source is 1. In the first (arrival rate 1,
  service rate 1, two servers, horizon 3.5, capacity 1) the third customer is still being
  served when the run returns. In the second (arrival rate 1, service rate 1/10, one
  server, horizon 5, capacity 1) the first customer is in service until time 11 and the
  second waits.
\<close>

definition example_in_service :: simulation where
  "example_in_service =
     \<lparr>arrival_rate = 1, service_rate = 1, num_servers = 2, sim_time = 7 / 2,
      queue_capacity = 1, customers_served = 2, customers_rejected = 0,
      wait_times = [0, 0, 0], service_times = [1, 1, 1], system_times = [1, 1],
      queue_lengths = [0, 0, 0], arrival_times = [1, 2, 3], server_busy_time = 2,
      max_queue_length = 0, now = 7 / 2, next_eid = 19,
      agenda = [\<lparr>time = 4, priority = 1, eid = 14, what = Timeout_generator\<rparr>,
                \<lparr>time = 4, priority = 1, eid = 18, what = Timeout_service 3 3 1\<rparr>],
      users = [3], queue = [], customer_id = 3, draws_used = 7\<rparr>"

definition example_long_service :: simulation where
  "example_long_service =
     \<lparr>arrival_rate = 1, service_rate = 1 / 10, num_servers = 1, sim_time = 5,
      queue_capacity = 1, customers_served = 0, customers_rejected = 2,
      wait_times = [0], service_times = [10], system_times = [],
      queue_lengths = [0, 0], arrival_times = [1, 2, 3, 4], server_busy_time = 0,
      max_queue_length = 0, now = 5, next_eid = 11,
      agenda = [\<lparr>time = 11, priority = 1, eid = 6, what = Timeout_service 1 1 10\<rparr>,
                \<lparr>time = 5, priority = 1, eid = 10, what = Timeout_generator\<rparr>],
      users = [1], queue = [(2, 2)], customer_id = 4, draws_used = 6\<rparr>"






text \<open>
  The run with every draw equal to 1, arrival rate 1, service rate 1/10, one server,
  horizon 5 and queue capacity -1: it returns, with the four arrivals rejected.
\<close>

definition example_negative_capacity :: simulation where
  "example_negative_capacity =
     \<lparr>arrival_rate = 1, service_rate = 1 / 10, num_servers = 1, sim_time = 5,
      queue_capacity = - 1, customers_served = 0, customers_rejected = 4,
      wait_times = [], service_times = [], system_times = [],
      queue_lengths = [], arrival_times = [1, 2, 3, 4], server_busy_time = 0,
      max_queue_length = 0, now = 5, next_eid = 7,
      agenda = [\<lparr>time = 5, priority = 1, eid = 6, what = Timeout_generator\<rparr>],
      users = [], queue = [], customer_id = 4, draws_used = 5\<rparr>"

section \<open>Rounding\<close>

lemma round_half_even_bounds: "\<lfloor>y\<rfloor> \<le> round_half_even y \<and> round_half_even y \<le> \<lfloor>y\<rfloor> + 1"
  by (simp add: round_half_even_def Let_def)

lemma round_half_even_mono:
  assumes "x \<le> y"
  shows "round_half_even x \<le> round_half_even y"
proof (cases "\<lfloor>x\<rfloor> = \<lfloor>y\<rfloor>")
  case True
  with assms have "x - of_int \<lfloor>x\<rfloor> \<le> y - of_int \<lfloor>y\<rfloor>" by simp
  with True show ?thesis
    by (auto simp add: round_half_even_def Let_def)
next
  case False
  with assms have "\<lfloor>x\<rfloor> < \<lfloor>y\<rfloor>"
    using floor_mono [of x y] by linarith
  then have "round_half_even x \<le> \<lfloor>y\<rfloor>"
    using round_half_even_bounds [of x] by linarith
  then show ?thesis
    using round_half_even_bounds [of y] by linarith
qed

lemma py_round_mono: "x \<le> y \<Longrightarrow> py_round x d \<le> py_round y d"
  unfolding py_round_def
  by (intro divide_right_mono of_int_le_iff [THEN iffD2] round_half_even_mono mult_right_mono) simp_all

lemma round_half_even_of_int: "round_half_even (of_int k) = k"
  by (simp add: round_half_even_def)

lemma py_round_zero: "py_round 0 d = 0"
  using round_half_even_of_int [of 0] by (simp add: py_round_def)

lemma py_round_one: "py_round 1 d = 1"
proof -
  have "round_half_even (10 ^ d) = 10 ^ d"
    using round_half_even_of_int [of "10 ^ d"] by simp
  then show ?thesis by (simp add: py_round_def)
qed

section \<open>The predictor on short inputs\<close>

text \<open>
  Claim C9. On fewer than 5 arrival timestamps, whatever the number of periods asked
  for, \<open>predict_demand\<close> returns normally (nothing is raised) and the result has the trend
  "insufficient\_data", no prediction and confidence zero.
\<close>

theorem predict_demand_insufficient_data:
  assumes "length ts < 5"
  shows "\<exists>r. predict_demand ts forecast_periods = Inr r
           \<and> trend r = ''insufficient_data'' \<and> predictions r = [] \<and> confidence r = 0"
  using assms by (simp add: predict_demand_def insufficient_data_def)

theorem predict_demand_insufficient_data_witness:
  "length [1, 2, 3 :: real] < 5
   \<and> (\<exists>r. predict_demand [1, 2, 3] 10 = Inr r
           \<and> trend r = ''insufficient_data'' \<and> predictions r = [] \<and> confidence r = 0)"
  using predict_demand_insufficient_data [of "[1, 2, 3]" 10] by simp

section \<open>Where the forecast starts\<close>

text \<open>
  Claim C5. Six arrival times in \<open>[0, 3]\<close> fall into three bins with the counts 1, 2, 3,
  so the fitted line is \<open>1 + x\<close> on the bin indices 0, 1, 2. The forecast is taken at the
  indices 6 to 15, which start at the number of arrival times, and is 7 to 16; at the
  bin indices 3 to 12 that follow the last fitted bin the line gives 4 to 13.
\<close>

theorem predict_demand_starts_at_sample_count:
  "prepare_time_series [1 / 2, 1, 3 / 2, 2, 5 / 2, 3] = ([0, 1, 2], [1, 2, 3])
   \<and> lr_fit [0, 1, 2] [1, 2, 3] = (1, 1)
   \<and> future_indices [1 / 2, 1, 3 / 2, 2, 5 / 2, 3] 10 = [6, 7, 8, 9, 10, 11, 12, 13, 14, 15]
   \<and> map predictions [projr (predict_demand [1 / 2, 1, 3 / 2, 2, 5 / 2, 3] 10)]
       = [[7, 8, 9, 10, 11, 12, 13, 14, 15, 16]]
   \<and> map (\<lambda>p. py_round p 2) (lr_predict (1, 1) (map real [3 ..< 13]))
       = [4, 5, 6, 7, 8, 9, 10, 11, 12, 13]"
proof -
  have 1: "prepare_time_series [1 / 2, 1, 3 / 2, 2, 5 / 2, 3] = ([0, 1, 2], [1, 2, 3])"
    by code_simp
  have 2: "future_indices [1 / 2, 1, 3 / 2, 2, 5 / 2, 3] 10 = [6, 7, 8, 9, 10, 11, 12, 13, 14, 15]"
    by code_simp
  have 3: "lr_fit [0, 1, 2] [1, 2, 3] = (1, 1)"
    by code_simp
  have 4: "map (\<lambda>p. py_round p 2) (lr_predict (1, 1) [6, 7, 8, 9, 10, 11, 12, 13, 14, 15])
             = [7, 8, 9, 10, 11, 12, 13, 14, 15, 16]"
    by code_simp
  have 5: "map (\<lambda>p. py_round p 2) (lr_predict (1, 1) (map real [3 ..< 13]))
       = [4, 5, 6, 7, 8, 9, 10, 11, 12, 13]"
    by code_simp
  have 6: "predictions (projr (predict_demand [1 / 2, 1, 3 / 2, 2, 5 / 2, 3] 10))
             = [7, 8, 9, 10, 11, 12, 13, 14, 15, 16]"
    unfolding predict_demand_def by (simp add: 1 2 3 4 Let_def)
  show ?thesis
    using 1 2 3 5 6 by simp
qed

section \<open>The confidence interval\<close>

lemma sem_nonneg: "0 \<le> sem xs"
  unfolding sem_def
  by (intro divide_nonneg_nonneg real_sqrt_ge_zero sum_list_nonneg) auto

text \<open>
  Claim C8. A wait-time sample of fewer than 2 points gives the empty result. A sample
  \<open>w\<close> of \<open>n \<ge> 2\<close> points gives the interval of Student's t distribution with \<open>n - 1\<close>
  degrees of freedom: the reported mean is the sample mean, the margin is the standard
  error times the quantile at \<open>(1 + confidence) / 2\<close> with \<open>n - 1\<close> degrees of freedom, the
  bounds are the mean minus and plus the margin (each rounded to 2 decimals), and
  lower\_bound \<open>\<le>\<close> mean \<open>\<le>\<close> upper\_bound. \<^verbatim>\<open>analyze\<close> asks for the level 0.95. The
  quantile function is the library's; what is used of it is that it is not negative
  from one half on.
\<close>

theorem confidence_interval_brackets_mean:
  assumes tq: "\<And>p df. 1 / 2 \<le> p \<Longrightarrow> 0 \<le> t_ppf lib p df" and conf: "0 \<le> conf"
  shows "(length (self_wait_times self) < 2 \<longrightarrow> confidence_intervals lib self conf = None)
       \<and> (2 \<le> length (self_wait_times self) \<longrightarrow>
            (\<exists>ci. confidence_intervals lib self conf = Some ci
                  \<and> confidence_level ci = conf
                  \<and> mean ci = py_round (np_mean (self_wait_times self)) 2
                  \<and> margin_of_error ci
                      = py_round (sem (self_wait_times self)
                          * t_ppf lib ((1 + conf) / 2) (length (self_wait_times self) - 1)) 2
                  \<and> lower_bound ci
                      = py_round (np_mean (self_wait_times self)
                          - sem (self_wait_times self)
                            * t_ppf lib ((1 + conf) / 2) (length (self_wait_times self) - 1)) 2
                  \<and> upper_bound ci
                      = py_round (np_mean (self_wait_times self)
                          + sem (self_wait_times self)
                            * t_ppf lib ((1 + conf) / 2) (length (self_wait_times self) - 1)) 2
                  \<and> lower_bound ci \<le> mean ci \<and> mean ci \<le> upper_bound ci))
       \<and> confidence_interval_report (analyze lib self) = confidence_intervals lib self (95 / 100)"
proof -
  let ?w = "self_wait_times self"
  let ?margin = "sem ?w * t_ppf lib ((1 + conf) / 2) (length ?w - 1)"
  from conf have "0 \<le> t_ppf lib ((1 + conf) / 2) (length ?w - 1)"
    by (intro tq) simp
  then have m: "0 \<le> ?margin"
    using sem_nonneg [of ?w] by simp
  have lo: "py_round (np_mean ?w - ?margin) 2 \<le> py_round (np_mean ?w) 2"
    using m by (intro py_round_mono) simp
  have hi: "py_round (np_mean ?w) 2 \<le> py_round (np_mean ?w + ?margin) 2"
    using m by (intro py_round_mono) simp
  have "confidence_interval_report (analyze lib self) = confidence_intervals lib self (95 / 100)"
    by (simp add: analyze_def)
  then show ?thesis
    using lo hi by (simp add: confidence_intervals_def Let_def)
qed

text \<open>
  The sample 1, 3 has mean 2 and standard error 1; with the quantile 2 of the stand-in
  library the interval is \<open>[0, 4]\<close>.
\<close>

theorem confidence_interval_brackets_mean_witness:
  "confidence_intervals demo_stats
      (StatisticalAnalysis (calculate_metrics
         ((cafeteria_simulation 1 2 1 3 1)\<lparr>wait_times := [1, 3]\<rparr>))) (95 / 100)
     = Some \<lparr>confidence_level = 95 / 100, mean = 2, lower_bound = 0, upper_bound = 4,
             margin_of_error = 2\<rparr>"
proof -
  let ?self = "StatisticalAnalysis (calculate_metrics
         ((cafeteria_simulation 1 2 1 3 1)\<lparr>wait_times := [1, 3]\<rparr>))"
  have r: "py_round 1 2 = 1" "py_round 3 2 = 3" "py_round 2 2 = 2" "py_round 0 2 = 0"
    "py_round 4 2 = 4"
    by code_simp+
  have w: "self_wait_times ?self = [1, 3]"
    by (simp add: StatisticalAnalysis_def calculate_metrics_def cafeteria_simulation_def Let_def r)
  have h: "\<And>p df. 1 / 2 \<le> p \<Longrightarrow> 0 \<le> t_ppf demo_stats p df"
    by (simp add: demo_stats_def)
  have c: "(0::real) \<le> 95 / 100" by simp
  have m: "np_mean [1, 3] = 2" by (simp add: np_mean_def)
  have s: "sem [1, 3] = 1" by (simp add: sem_def m)
  have q: "t_ppf demo_stats ((1 + 95 / 100) / 2) (length [1, 3 :: real] - 1) = 2"
    by (simp add: demo_stats_def)
  from confidence_interval_brackets_mean [of demo_stats "95 / 100" ?self, OF h c]
  obtain ci where "confidence_intervals demo_stats ?self (95 / 100) = Some ci"
    and "confidence_level ci = 95 / 100" and "mean ci = 2" and "margin_of_error ci = 2"
    and "lower_bound ci = 0" and "upper_bound ci = 4"
    unfolding w m s q by (auto simp add: r)
  then show ?thesis by (cases ci) simp
qed

section \<open>What the analysis reads\<close>

lemma analyze_depends_on_series:
  assumes "self_wait_times a = self_wait_times b" and "self_service_times a = self_service_times b"
  shows "analyze lib a = analyze lib b"
  using assms
  by (simp add: analyze_def descriptive_statistics_def test_distributions_def
      confidence_intervals_def hypothesis_tests_def correlation_analysis_def)

text \<open>
  Claim C10. The analysis of a run reads the two series of the result dictionary: the
  first 100 wait times and the first 100 service times, rounded to 2 decimals. Two
  simulation states whose series agree there, whatever follows and whatever else
  differs, have the same analysis.
\<close>

theorem analysis_reads_truncated_rounded_series:
  assumes "map (\<lambda>t. py_round t 2) (take 100 (wait_times s'))
             = map (\<lambda>t. py_round t 2) (take 100 (wait_times s))"
    and "map (\<lambda>t. py_round t 2) (take 100 (service_times s'))
             = map (\<lambda>t. py_round t 2) (take 100 (service_times s))"
  shows "self_wait_times (StatisticalAnalysis (calculate_metrics s))
           = map (\<lambda>t. py_round t 2) (take 100 (wait_times s))
       \<and> self_service_times (StatisticalAnalysis (calculate_metrics s))
           = map (\<lambda>t. py_round t 2) (take 100 (service_times s))
       \<and> length (self_wait_times (StatisticalAnalysis (calculate_metrics s))) \<le> 100
       \<and> length (self_service_times (StatisticalAnalysis (calculate_metrics s))) \<le> 100
       \<and> analyze lib (StatisticalAnalysis (calculate_metrics s'))
           = analyze lib (StatisticalAnalysis (calculate_metrics s))"
proof -
  have w: "\<And>u. self_wait_times (StatisticalAnalysis (calculate_metrics u))
     = map (\<lambda>t. py_round t 2) (take 100 (wait_times u))"
    by (simp add: StatisticalAnalysis_def calculate_metrics_def Let_def)
  have v: "\<And>u. self_service_times (StatisticalAnalysis (calculate_metrics u))
     = map (\<lambda>t. py_round t 2) (take 100 (service_times u))"
    by (simp add: StatisticalAnalysis_def calculate_metrics_def Let_def)
  have "analyze lib (StatisticalAnalysis (calculate_metrics s'))
           = analyze lib (StatisticalAnalysis (calculate_metrics s))"
    by (rule analyze_depends_on_series) (simp_all add: w v assms)
  then show ?thesis
    by (simp add: w v)
qed

theorem analysis_reads_truncated_rounded_series_witness:
  "analyze demo_stats (StatisticalAnalysis (calculate_metrics
      ((cafeteria_simulation 1 2 1 3 1)\<lparr>wait_times := replicate 100 1 @ [7], service_times := [1]\<rparr>)))
   = analyze demo_stats (StatisticalAnalysis (calculate_metrics
      ((cafeteria_simulation 1 2 1 3 1)\<lparr>wait_times := replicate 100 1 @ [5], service_times := [1]\<rparr>)))"
  using analysis_reads_truncated_rounded_series
    [of "(cafeteria_simulation 1 2 1 3 1)\<lparr>wait_times := replicate 100 1 @ [7], service_times := [1]\<rparr>"
        "(cafeteria_simulation 1 2 1 3 1)\<lparr>wait_times := replicate 100 1 @ [5], service_times := [1]\<rparr>"
        demo_stats]
  by simp

text \<open>The handler analyzes the dictionary it got from \<^verbatim>\<open>run\<close>, and nothing else.\<close>

lemma simulate_analyzes_its_results:
  assumes "simulate lib fuel rnd sim = Returned (res, statistical, fc)"
  shows "run fuel rnd sim = Returned res"
    and "statistical = analyze lib (StatisticalAnalysis res)"
    and "predict_demand (out_arrival_times res) 10 = Inr fc"
  using assms
  by (auto simp add: simulate_def Let_def split: outcome.splits sum.splits)

section \<open>The event loop: popping and counting\<close>

lemma length_filter_remove1:
  "e \<in> set xs \<Longrightarrow> length (filter Q xs) = (if Q e then 1 else 0) + length (filter Q (remove1 e xs))"
  by (induction xs) auto

lemma arg_min_list_least:
  "xs \<noteq> [] \<Longrightarrow> x \<in> set xs \<Longrightarrow> f (arg_min_list f xs) \<le> f x"
  by (simp add: f_arg_min_list_f)

lemma pending_heappop:
  assumes "agenda s \<noteq> []" and "heappop s = (e, s1)"
  shows "pending P s = (if P (what e) then 1 else 0) + pending P s1"
proof -
  from assms have e: "e \<in> set (agenda s)" and a: "agenda s1 = remove1 e (agenda s)"
    by (auto simp add: heappop_def Let_def arg_min_list_in)
  show ?thesis
    unfolding pending_def a
    using length_filter_remove1 [OF e, of "\<lambda>e. P (what e)"] by simp
qed

lemma heappop_fields:
  assumes "heappop s = (e, s1)"
  shows "queue s1 = queue s" "users s1 = users s" "customers_served s1 = customers_served s"
    "customers_rejected s1 = customers_rejected s" "arrival_times s1 = arrival_times s"
    "service_times s1 = service_times s" "system_times s1 = system_times s"
    "wait_times s1 = wait_times s" "queue_lengths s1 = queue_lengths s"
    "server_busy_time s1 = server_busy_time s" "max_queue_length s1 = max_queue_length s"
    "num_servers s1 = num_servers s" "sim_time s1 = sim_time s"
    "queue_capacity s1 = queue_capacity s" "now s1 = time e"
  using assms by (auto simp add: heappop_def Let_def)

lemma pending_schedule [simp]:
  "pending P (schedule k p d s) = pending P s + (if P k then 1 else 0)"
  by (simp add: pending_def schedule_def)

lemma trigger_put_cases:
  obtains (idle) "trigger_put s = s"
  | (grant) cid a rest where "queue s = (cid, a) # rest" and "int (length (users s)) < num_servers s"
      and "trigger_put s = schedule (Request_granted cid a) NORMAL 0
             (s\<lparr>users := users s @ [cid], queue := rest\<rparr>)"
proof (cases "queue s")
  case Nil
  then have "trigger_put s = s" by (simp add: trigger_put_def)
  then show ?thesis by (rule idle)
next
  case (Cons p rest)
  obtain cid a where p: "p = (cid, a)" by (cases p)
  show ?thesis
  proof (cases "int (length (users s)) < num_servers s")
    case True
    with Cons p show ?thesis by (intro grant [of cid a rest]) (simp_all add: trigger_put_def)
  next
    case False
    with Cons p have "trigger_put s = s" by (simp add: trigger_put_def)
    then show ?thesis by (rule idle)
  qed
qed

lemma inv_count_trigger_put:
  "in_flight (trigger_put s) = in_flight s"
  "pending is_service (trigger_put s) = pending is_service s"
  "customers_served (trigger_put s) = customers_served s"
  "customers_rejected (trigger_put s) = customers_rejected s"
  "arrival_times (trigger_put s) = arrival_times s"
  "service_times (trigger_put s) = service_times s"
  "system_times (trigger_put s) = system_times s"
  "wait_times (trigger_put s) = wait_times s"
  by (cases s rule: trigger_put_cases; simp add: in_flight_def schedule_def pending_def)+

lemma inv_count_popped:
  assumes "inv_count s" and "agenda s \<noteq> []" and "heappop s = (e, s1)"
  shows "length (arrival_times s1) = customers_served s1 + customers_rejected s1 + in_flight s1
           + (if is_customer_start (what e) \<or> is_granted (what e) \<or> is_service (what e) then 1 else 0)"
    and "length (service_times s1) = customers_served s1 + pending is_service s1
           + (if is_service (what e) then 1 else 0)"
    and "length (system_times s1) = customers_served s1"
    and "length (wait_times s1) = length (service_times s1)"
  using assms(1) pending_heappop [OF assms(2,3)] heappop_fields [OF assms(3)]
  by (cases "what e"; simp add: inv_count_def in_flight_def)+

lemma inv_count_callback:
  assumes "inv_count s" and "agenda s \<noteq> []" and "heappop s = (e, s1)"
    and "callback rnd (what e) s1 = Continue s'"
  shows "inv_count s'"
proof (cases "what e")
  case Initialize_generator
  with assms(4) inv_count_popped [OF assms(1-3)] show ?thesis
    by (auto simp add: callback_def lift_def generator_wait_def expovariate_def timeout_def
        inv_count_def in_flight_def schedule_def pending_def split: sum.splits if_splits)
next
  case (Initialize_customer cid)
  with assms(4) inv_count_popped [OF assms(1-3)] show ?thesis
    by (auto simp add: callback_def customer_process_start_def Let_def inv_count_trigger_put
        inv_count_def) (simp_all add: in_flight_def pending_def)
next
  case Timeout_generator
  with assms(4) inv_count_popped [OF assms(1-3)] show ?thesis
    by (auto simp add: callback_def lift_def customer_generator_def generator_wait_def
        expovariate_def timeout_def Let_def
        inv_count_def in_flight_def schedule_def pending_def split: sum.splits if_splits)
next
  case (Request_granted cid a)
  with assms(4) inv_count_popped [OF assms(1-3)] show ?thesis
    by (auto simp add: callback_def lift_def customer_process_service_def
        expovariate_def timeout_def Let_def
        inv_count_def in_flight_def schedule_def pending_def split: sum.splits if_splits)
next
  case (Timeout_service cid a st)
  with assms(4) inv_count_popped [OF assms(1-3)] show ?thesis
    by (auto simp add: callback_def customer_process_end_def Let_def
        inv_count_def in_flight_def schedule_def pending_def split: sum.splits if_splits)
next
  case Release_done
  with assms(4) inv_count_popped [OF assms(1-3)] show ?thesis
    by (auto simp add: callback_def inv_count_trigger_put inv_count_def)
next
  case Process_ended
  with assms(4) inv_count_popped [OF assms(1-3)] show ?thesis
    by (auto simp add: callback_def inv_count_def in_flight_def)
next
  case Stop_simulation
  with assms(4) show ?thesis
    by (simp add: callback_def)
qed

section \<open>The order of events\<close>

lemma heappop_least:
  assumes "agenda s \<noteq> []" and "heappop s = (e, s1)"
  shows "e \<in> set (agenda s)" and "agenda s1 = remove1 e (agenda s)"
    and "\<forall>x\<in>set (agenda s). heap_key e \<le> heap_key x"
  using assms by (auto simp add: heappop_def Let_def arg_min_list_in arg_min_list_least)

lemma pending_zero: "pending P s = 0 \<longleftrightarrow> (\<forall>e\<in>set (agenda s). \<not> P (what e))"
  by (auto simp add: pending_def filter_empty_conv)

lemma inv_sched_time_before_horizon:
  assumes inv: "inv_sched s" and ne: "agenda s \<noteq> []" and pop: "heappop s = (e, s1)"
    and ns: "what e \<noteq> Stop_simulation"
  shows "time e < sim_time s"
proof -
  note h = heappop_least [OF ne pop]
  from inv obtain es where es: "es \<in> set (agenda s)" "what es = Stop_simulation"
    by (auto simp add: inv_sched_def)
  with inv have tes: "time es = sim_time s" "priority es = URGENT"
    by (auto simp add: inv_sched_def)
  from h(3) es(1) have le: "heap_key e \<le> heap_key es" by blast
  show ?thesis
  proof (cases "is_start (what e)")
    case True
    with inv h(1) show ?thesis by (auto simp add: inv_sched_def)
  next
    case False
    with inv h(1) ns have "priority e = NORMAL" by (auto simp add: inv_sched_def)
    with le tes show ?thesis
      by (auto simp add: heap_key_def URGENT_def NORMAL_def)
  qed
qed

lemma inv_sched_no_start_left:
  assumes inv: "inv_sched s" and ne: "agenda s \<noteq> []" and pop: "heappop s = (e, s1)"
  shows "pending is_start s1 = 0"
proof (cases "is_start (what e)")
  case True
  with inv pending_heappop [OF ne pop, of is_start] show ?thesis
    by (simp add: inv_sched_def)
next
  case False
  note h = heappop_least [OF ne pop]
  have "\<not> is_start (what x)" if x: "x \<in> set (agenda s)" for x
  proof
    assume st: "is_start (what x)"
    with inv x have kx: "time x = now s" "priority x = URGENT" by (auto simp add: inv_sched_def)
    from h(3) x have le: "heap_key e \<le> heap_key x" by blast
    from inv h(1) have te: "now s \<le> time e" by (auto simp add: inv_sched_def)
    show False
    proof (cases "what e = Stop_simulation")
      case True
      with inv h(1) have "time e = sim_time s" by (auto simp add: inv_sched_def)
      moreover from inv have "now s < sim_time s" by (simp add: inv_sched_def)
      ultimately show False using le kx by (auto simp add: heap_key_def)
    next
      case ns: False
      with inv h(1) False have "priority e = NORMAL" by (auto simp add: inv_sched_def)
      with le kx te show False by (auto simp add: heap_key_def URGENT_def NORMAL_def)
    qed
  qed
  then have "pending is_start s = 0" by (simp add: pending_zero)
  with pending_heappop [OF ne pop, of is_start] show ?thesis by simp
qed

lemma inv_sched_popped:
  assumes inv: "inv_sched s" and ne: "agenda s \<noteq> []" and pop: "heappop s = (e, s1)"
    and ns: "what e \<noteq> Stop_simulation"
  shows "popped s1"
proof -
  note h = heappop_least [OF ne pop]
  note f = heappop_fields [OF pop]
  have sub: "\<And>x. x \<in> set (agenda s1) \<Longrightarrow> x \<in> set (agenda s)"
    unfolding h(2) using set_remove1_subset [of e "agenda s"] by blast
  have 1: "0 \<le> now s1"
    using inv h(1) f by (auto simp add: inv_sched_def intro: order_trans)
  have 2: "now s1 < sim_time s1"
    using inv_sched_time_before_horizon [OF inv ne pop ns] f by simp
  have 3: "\<forall>x\<in>set (agenda s1). now s1 \<le> time x"
  proof
    fix x assume "x \<in> set (agenda s1)"
    then have "heap_key e \<le> heap_key x" using h(3) sub by blast
    then show "now s1 \<le> time x" using f by (auto simp add: heap_key_def)
  qed
  have 4: "\<forall>x\<in>set (agenda s1). \<not> is_start (what x)"
    using inv_sched_no_start_left [OF inv ne pop] by (simp add: pending_zero)
  have 5: "\<forall>x\<in>set (agenda s1). what x \<noteq> Stop_simulation \<longrightarrow> priority x = NORMAL"
    using inv 4 sub by (auto simp add: inv_sched_def)
  have 6: "\<forall>x\<in>set (agenda s1). what x = Stop_simulation
             \<longrightarrow> time x = sim_time s1 \<and> priority x = URGENT"
    using inv sub f by (auto simp add: inv_sched_def)
  from inv obtain es where es: "es \<in> set (agenda s)" "what es = Stop_simulation"
    by (auto simp add: inv_sched_def)
  with ns have "es \<noteq> e" by auto
  with es have 7: "\<exists>x\<in>set (agenda s1). what x = Stop_simulation"
    unfolding h(2) by auto
  show ?thesis
    unfolding popped_def using 1 2 3 4 5 6 7 by blast
qed

lemma popped_no_start:
  "popped s \<Longrightarrow> filter (\<lambda>e. is_start (what e)) (agenda s) = []"
  by (auto simp add: popped_def filter_empty_conv)

lemma inv_sched_schedule_normal:
  assumes "inv_sched s" and "0 \<le> d" and "\<not> is_start k" and "k \<noteq> Stop_simulation"
  shows "inv_sched (schedule k NORMAL d s)"
  using assms by (auto simp add: inv_sched_def schedule_def pending_def)

lemma popped_imp_inv_sched: "popped s \<Longrightarrow> inv_sched s"
  using popped_no_start [of s] by (auto simp add: popped_def inv_sched_def pending_def)

lemma inv_sched_fields:
  assumes "inv_sched s" and "agenda s' = agenda s" and "now s' = now s"
    and "sim_time s' = sim_time s"
  shows "inv_sched s'"
  using assms by (simp add: inv_sched_def pending_def)

lemma inv_sched_trigger_put: "inv_sched s \<Longrightarrow> inv_sched (trigger_put s)"
proof (cases s rule: trigger_put_cases)
  case idle
  assume "inv_sched s" with idle show ?thesis by simp
next
  case (grant cid a rest)
  assume "inv_sched s"
  then have "inv_sched (s\<lparr>users := users s @ [cid], queue := rest\<rparr>)"
    by (rule inv_sched_fields) simp_all
  then show ?thesis
    unfolding grant(3) by (rule inv_sched_schedule_normal) simp_all
qed

lemma inv_sched_generator_wait:
  assumes "inv_sched s" and "generator_wait rnd s = Inr s'"
  shows "inv_sched s'"
proof -
  let ?d = "rnd (draws_used s) / arrival_rate s"
  from assms(2) have d: "0 \<le> ?d"
    and s': "s' = schedule Timeout_generator NORMAL ?d (s\<lparr>draws_used := draws_used s + 1\<rparr>)"
    by (auto simp add: generator_wait_def expovariate_def timeout_def split: if_splits)
  from assms(1) have "inv_sched (s\<lparr>draws_used := draws_used s + 1\<rparr>)"
    by (rule inv_sched_fields) simp_all
  then show ?thesis
    unfolding s' using d by (rule inv_sched_schedule_normal) simp_all
qed

lemma inv_sched_schedule_start:
  assumes "popped s"
  shows "inv_sched (schedule (Initialize_customer cid) URGENT 0 s)"
proof -
  have "filter (\<lambda>e. is_start (what e)) (agenda s) = []"
    using assms by (rule popped_no_start)
  then have "pending is_start (schedule (Initialize_customer cid) URGENT 0 s) \<le> 1"
    by (simp add: pending_def schedule_def)
  moreover have "\<forall>e\<in>set (agenda s). \<not> is_start (what e)"
    using assms by (simp add: popped_def)
  ultimately show ?thesis
    using assms unfolding popped_def inv_sched_def
    by (simp add: schedule_def)
qed

lemma popped_callback:
  assumes p: "popped s1" and c: "callback rnd k s1 = Continue s'"
  shows "inv_sched s'"
proof (cases k)
  case Initialize_generator
  with c have "generator_wait rnd s1 = Inr s'"
    by (simp add: callback_def lift_def split: sum.splits)
  with popped_imp_inv_sched [OF p] show ?thesis by (rule inv_sched_generator_wait)
next
  case (Initialize_customer cid)
  have "inv_sched (s1\<lparr>queue_lengths := queue_lengths s1 @ [length (queue s1)],
          max_queue_length := max (max_queue_length s1) (length (queue s1)),
          queue := queue s1 @ [(cid, now s1)]\<rparr>)"
    using popped_imp_inv_sched [OF p] by (rule inv_sched_fields) simp_all
  then have "inv_sched (customer_process_start cid s1)"
    unfolding customer_process_start_def Let_def
    by (simp add: inv_sched_trigger_put)
  with c Initialize_customer show ?thesis by (simp add: callback_def)
next
  case Timeout_generator
  let ?s2 = "s1\<lparr>customer_id := customer_id s1 + 1, arrival_times := arrival_times s1 @ [now s1]\<rparr>"
  let ?s3 = "if int (length (queue ?s2)) < queue_capacity ?s2
             then schedule (Initialize_customer (customer_id ?s2)) URGENT 0 ?s2
             else ?s2\<lparr>customers_rejected := customers_rejected ?s2 + 1\<rparr>"
  have p2: "popped ?s2"
    using p by (simp add: popped_def)
  have "inv_sched ?s3"
  proof (cases "int (length (queue ?s2)) < queue_capacity ?s2")
    case True
    then show ?thesis
      using inv_sched_schedule_start [OF p2] by simp
  next
    case False
    have "inv_sched (?s2\<lparr>customers_rejected := customers_rejected ?s2 + 1\<rparr>)"
      using popped_imp_inv_sched [OF p] by (rule inv_sched_fields) simp_all
    with False show ?thesis by simp
  qed
  moreover from c Timeout_generator have "customer_generator rnd s1 = Inr s'"
    by (simp add: callback_def lift_def split: sum.splits)
  then have "generator_wait rnd ?s3 = Inr s'"
    by (simp only: customer_generator_def Let_def)
  ultimately show ?thesis by (rule inv_sched_generator_wait)
next
  case (Request_granted cid a)
  let ?st = "rnd (draws_used s1) / service_rate s1"
  let ?s2 = "s1\<lparr>wait_times := wait_times s1 @ [now s1 - a], draws_used := draws_used s1 + 1,
                 service_times := service_times s1 @ [?st]\<rparr>"
  from c Request_granted have st: "0 \<le> ?st"
    and s': "s' = schedule (Timeout_service cid a ?st) NORMAL ?st ?s2"
    by (auto simp add: callback_def lift_def customer_process_service_def Let_def
        expovariate_def timeout_def split: sum.splits if_splits)
  have "inv_sched ?s2"
    using popped_imp_inv_sched [OF p] by (rule inv_sched_fields) simp_all
  then show ?thesis
    unfolding s' using st by (rule inv_sched_schedule_normal) simp_all
next
  case (Timeout_service cid a st)
  let ?s2 = "s1\<lparr>system_times := system_times s1 @ [now s1 - a],
                 customers_served := customers_served s1 + 1,
                 server_busy_time := server_busy_time s1 + st,
                 users := remove1 cid (users s1)\<rparr>"
  have "inv_sched ?s2"
    using popped_imp_inv_sched [OF p] by (rule inv_sched_fields) simp_all
  then have "inv_sched (schedule Release_done NORMAL 0 ?s2)"
    by (rule inv_sched_schedule_normal) simp_all
  then have "inv_sched (schedule Process_ended NORMAL 0 (schedule Release_done NORMAL 0 ?s2))"
    by (rule inv_sched_schedule_normal) simp_all
  with c Timeout_service show ?thesis
    by (simp add: callback_def customer_process_end_def Let_def)
next
  case Release_done
  with c popped_imp_inv_sched [OF p] show ?thesis
    by (auto simp add: callback_def inv_sched_trigger_put)
next
  case Process_ended
  with c popped_imp_inv_sched [OF p] show ?thesis
    by (auto simp add: callback_def)
next
  case Stop_simulation
  with c show ?thesis by (simp add: callback_def)
qed

lemma step_Continue:
  assumes "step rnd s = Continue s'"
  obtains e s1 where "agenda s \<noteq> []" and "heappop s = (e, s1)"
    and "callback rnd (what e) s1 = Continue s'" and "what e \<noteq> Stop_simulation"
proof -
  from assms have ne: "agenda s \<noteq> []" by (auto simp add: step_def split: if_splits)
  obtain e s1 where pop: "heappop s = (e, s1)" by (cases "heappop s")
  with assms ne have c: "callback rnd (what e) s1 = Continue s'" by (simp add: step_def)
  then have "what e \<noteq> Stop_simulation" by (auto simp add: callback_def)
  with ne pop c show ?thesis by (rule that)
qed

lemma step_Stopped:
  assumes "step rnd s = Stopped s'"
  obtains e where "agenda s \<noteq> []" and "heappop s = (e, s')" and "what e = Stop_simulation"
proof -
  from assms have ne: "agenda s \<noteq> []" by (auto simp add: step_def split: if_splits)
  obtain e s1 where pop: "heappop s = (e, s1)" by (cases "heappop s")
  with assms ne have c: "callback rnd (what e) s1 = Stopped s'" by (simp add: step_def)
  then have "what e = Stop_simulation \<and> s1 = s'"
    by (cases "what e") (auto simp add: callback_def lift_def split: sum.splits)
  with ne pop show ?thesis by (intro that [of e]) simp_all
qed

lemma inv_sched_step:
  assumes "inv_sched s" and "step rnd s = Continue s'"
  shows "inv_sched s'"
proof -
  from assms(2) obtain e s1 where ne: "agenda s \<noteq> []" and pop: "heappop s = (e, s1)"
    and c: "callback rnd (what e) s1 = Continue s'" and ns: "what e \<noteq> Stop_simulation"
    by (rule step_Continue)
  from inv_sched_popped [OF assms(1) ne pop ns] c show ?thesis by (rule popped_callback)
qed

lemma inv_count_step:
  assumes "inv_count s" and "step rnd s = Continue s'"
  shows "inv_count s'"
proof -
  from assms(2) obtain e s1 where ne: "agenda s \<noteq> []" and pop: "heappop s = (e, s1)"
    and c: "callback rnd (what e) s1 = Continue s'"
    by (rule step_Continue)
  from assms(1) ne pop c show ?thesis by (rule inv_count_callback)
qed

section \<open>Arrivals lie before the horizon\<close>

lemma callback_arrival_times:
  assumes "callback rnd k s1 = Continue s'"
  shows "sim_time s' = sim_time s1
         \<and> (arrival_times s' = arrival_times s1 \<or> arrival_times s' = arrival_times s1 @ [now s1])"
proof (cases k)
  case (Initialize_customer cid)
  with assms show ?thesis
    by (cases "s1\<lparr>queue_lengths := queue_lengths s1 @ [length (queue s1)],
          max_queue_length := max (max_queue_length s1) (length (queue s1)),
          queue := queue s1 @ [(cid, now s1)]\<rparr>" rule: trigger_put_cases)
       (auto simp add: callback_def customer_process_start_def Let_def schedule_def)
next
  case Release_done
  with assms show ?thesis
    by (cases s1 rule: trigger_put_cases) (auto simp add: callback_def schedule_def)
qed (use assms in \<open>auto simp add: callback_def lift_def generator_wait_def expovariate_def
      timeout_def customer_generator_def customer_process_service_def customer_process_end_def
      Let_def schedule_def split: sum.splits if_splits\<close>)

lemma inv_horizon_step:
  assumes "inv_horizon s" and "inv_sched s" and "step rnd s = Continue s'"
  shows "inv_horizon s'"
proof -
  from assms(3) obtain e s1 where ne: "agenda s \<noteq> []" and pop: "heappop s = (e, s1)"
    and c: "callback rnd (what e) s1 = Continue s'" and ns: "what e \<noteq> Stop_simulation"
    by (rule step_Continue)
  have p: "0 \<le> now s1 \<and> now s1 < sim_time s1"
    using inv_sched_popped [OF assms(2) ne pop ns] by (simp add: popped_def)
  from assms(1) heappop_fields [OF pop] have "inv_horizon s1"
    by (simp add: inv_horizon_def)
  with p callback_arrival_times [OF c] show ?thesis
    by (auto simp add: inv_horizon_def)
qed

section \<open>Runs\<close>

lemma env_run_Returned:
  assumes "env_run n rnd s = Returned s'" and "P s"
    and "\<And>u v. P u \<Longrightarrow> step rnd u = Continue v \<Longrightarrow> P v"
  shows "\<exists>u. P u \<and> step rnd u = Stopped s'"
  using assms(1,2)
proof (induction n arbitrary: s)
  case 0
  then show ?case by simp
next
  case (Suc n)
  show ?case
  proof (cases "step rnd s")
    case (Continue v)
    with Suc.prems have "env_run n rnd v = Returned s'" by simp
    moreover from Suc.prems(2) Continue have "P v" by (rule assms(3))
    ultimately show ?thesis by (rule Suc.IH)
  next
    case (Stopped v)
    with Suc.prems show ?thesis by auto
  next
    case (Failed e)
    with Suc.prems show ?thesis by simp
  qed
qed

lemma step_config:
  assumes "step rnd s = Continue s' \<or> step rnd s = Stopped s'"
  shows "sim_time s' = sim_time s \<and> num_servers s' = num_servers s
         \<and> queue_capacity s' = queue_capacity s"
proof -
  from assms obtain e s1 r where pop: "heappop s = (e, s1)"
    and c: "callback rnd (what e) s1 = r" and r: "r = Continue s' \<or> r = Stopped s'"
    by (cases "heappop s") (auto simp add: step_def split: if_splits)
  have "sim_time s' = sim_time s1 \<and> num_servers s' = num_servers s1
         \<and> queue_capacity s' = queue_capacity s1"
  proof (cases "what e")
    case (Initialize_customer cid)
    with c r show ?thesis
      by (cases "s1\<lparr>queue_lengths := queue_lengths s1 @ [length (queue s1)],
          max_queue_length := max (max_queue_length s1) (length (queue s1)),
          queue := queue s1 @ [(cid, now s1)]\<rparr>" rule: trigger_put_cases)
         (auto simp add: callback_def customer_process_start_def Let_def schedule_def)
  next
    case Release_done
    with c r show ?thesis
      by (cases s1 rule: trigger_put_cases) (auto simp add: callback_def schedule_def)
  qed (use c r in \<open>auto simp add: callback_def lift_def generator_wait_def expovariate_def
      timeout_def customer_generator_def customer_process_service_def customer_process_end_def
      Let_def schedule_def split: sum.splits if_splits\<close>)
  with heappop_fields [OF pop] show ?thesis by simp
qed

section \<open>Bounds on the servers and the queue\<close>

lemma pending_customer_start_zero:
  "pending is_start s = 0 \<Longrightarrow> pending is_customer_start s = 0"
proof -
  have "is_start k" if "is_customer_start k" for k
    using that by (cases k) simp_all
  then show "pending is_start s = 0 \<Longrightarrow> pending is_customer_start s = 0"
    unfolding pending_zero by blast
qed

lemma inv_bounds_popped:
  assumes b: "inv_bounds s" and sch: "inv_sched s" and ne: "agenda s \<noteq> []"
    and pop: "heappop s = (e, s1)"
  shows "pending is_customer_start s1 = 0"
    and "int (length (queue s1)) + (if is_customer_start (what e) then 1 else 0)
           \<le> max 0 (queue_capacity s1)"
    and "pending is_granted s1 + pending is_service s1
           + (if is_granted (what e) \<or> is_service (what e) then 1 else 0) \<le> length (users s1)"
    and "int (length (users s1)) \<le> num_servers s1"
proof -
  show z: "pending is_customer_start s1 = 0"
    using inv_sched_no_start_left [OF sch ne pop] by (rule pending_customer_start_zero)
  show "int (length (queue s1)) + (if is_customer_start (what e) then 1 else 0)
           \<le> max 0 (queue_capacity s1)"
    using b z pending_heappop [OF ne pop, of is_customer_start] heappop_fields [OF pop]
    by (simp add: inv_bounds_def split: if_splits)
  show "pending is_granted s1 + pending is_service s1
           + (if is_granted (what e) \<or> is_service (what e) then 1 else 0) \<le> length (users s1)"
    using b pending_heappop [OF ne pop, of is_granted] pending_heappop [OF ne pop, of is_service]
      heappop_fields [OF pop]
    by (cases "what e") (simp_all add: inv_bounds_def)
  show "int (length (users s1)) \<le> num_servers s1"
    using b heappop_fields [OF pop] by (simp add: inv_bounds_def)
qed

lemma inv_bounds_trigger_put:
  assumes "int (length (queue s)) + int (pending is_customer_start s) \<le> max 0 (queue_capacity s)"
    and "pending is_granted s + pending is_service s \<le> length (users s)"
    and "int (length (users s)) \<le> num_servers s"
  shows "inv_bounds (trigger_put s)"
  using assms
  by (cases s rule: trigger_put_cases)
     (auto simp add: inv_bounds_def schedule_def pending_def)

lemma length_remove1_bounds:
  "length xs \<le> Suc (length (remove1 x xs)) \<and> length (remove1 x xs) \<le> length xs"
  by (induction xs) auto

lemma inv_bounds_step:
  assumes b: "inv_bounds s" and sch: "inv_sched s" and st: "step rnd s = Continue s'"
  shows "inv_bounds s'"
proof -
  from st obtain e s1 where ne: "agenda s \<noteq> []" and pop: "heappop s = (e, s1)"
    and c: "callback rnd (what e) s1 = Continue s'"
    by (rule step_Continue)
  note p = inv_bounds_popped [OF b sch ne pop]
  show ?thesis
  proof (cases "what e")
    case Initialize_generator
    with c p show ?thesis
      by (auto simp add: callback_def lift_def generator_wait_def expovariate_def timeout_def
          inv_bounds_def schedule_def pending_def split: sum.splits if_splits)
  next
    case (Initialize_customer cid)
    with c have s': "s' = trigger_put (s1\<lparr>queue_lengths := queue_lengths s1 @ [length (queue s1)],
          max_queue_length := max (max_queue_length s1) (length (queue s1)),
          queue := queue s1 @ [(cid, now s1)]\<rparr>)"
      by (simp add: callback_def customer_process_start_def Let_def)
    show ?thesis
      unfolding s' using p Initialize_customer
      by (intro inv_bounds_trigger_put) (simp_all add: pending_def)
  next
    case Timeout_generator
    with c p show ?thesis
      by (auto simp add: callback_def lift_def customer_generator_def generator_wait_def
          expovariate_def timeout_def Let_def
          inv_bounds_def schedule_def pending_def split: sum.splits if_splits)
  next
    case (Request_granted cid a)
    with c p show ?thesis
      by (auto simp add: callback_def lift_def customer_process_service_def
          expovariate_def timeout_def Let_def
          inv_bounds_def schedule_def pending_def split: sum.splits if_splits)
  next
    case (Timeout_service cid a st)
    with c p length_remove1_bounds [of "users s1" cid] show ?thesis
      by (auto simp add: callback_def customer_process_end_def Let_def
          inv_bounds_def schedule_def pending_def)
  next
    case Release_done
    with c have s': "s' = trigger_put s1" by (simp add: callback_def)
    show ?thesis
      unfolding s' using p Release_done by (intro inv_bounds_trigger_put) simp_all
  next
    case Process_ended
    with c p show ?thesis by (auto simp add: callback_def inv_bounds_def)
  next
    case Stop_simulation
    with c show ?thesis by (simp add: callback_def)
  qed
qed

section \<open>Busy time\<close>

lemma elapsed_at_shift:
  "(\<Sum>e\<leftarrow>xs. elapsed_at t' e)
     = (\<Sum>e\<leftarrow>xs. elapsed_at t e) + real (length (filter (\<lambda>e. is_service (what e)) xs)) * (t' - t)"
proof (induction xs)
  case Nil
  then show ?case by simp
next
  case (Cons x xs)
  then show ?case
    by (cases "what x") (simp_all add: elapsed_at_def algebra_simps)
qed

lemma elapsed_at_mono: "t \<le> t' \<Longrightarrow> 0 \<le> elapsed_at t e \<Longrightarrow> 0 \<le> elapsed_at t' e"
  by (cases "what e") (simp_all add: elapsed_at_def)

lemma elapsed_at_due:
  "elapsed_at (time e) e = service_duration e"
  by (cases "what e") (simp_all add: elapsed_at_def service_duration_def)

lemma service_duration_zero: "\<not> is_service (what e) \<Longrightarrow> service_duration e = 0"
  by (cases "what e") (simp_all add: service_duration_def)

lemma inv_busy_popped:
  assumes busy: "inv_busy s" and b: "inv_bounds s" and sch: "inv_sched s"
    and ne: "agenda s \<noteq> []" and pop: "heappop s = (e, s1)"
  shows "0 \<le> server_busy_time s1" and "0 \<le> service_duration e"
    and "\<forall>x\<in>set (agenda s1). 0 \<le> service_duration x \<and> 0 \<le> elapsed_at (now s1) x"
    and "server_busy_time s1 + service_duration e + in_service_time s1
           \<le> real_of_int (num_servers s1) * now s1"
proof -
  note h = heappop_least [OF ne pop]
  note f = heappop_fields [OF pop]
  let ?d = "time e - now s"
  from sch h(1) have d: "0 \<le> ?d" by (auto simp add: inv_sched_def)
  have sub: "\<And>x. x \<in> set (agenda s1) \<Longrightarrow> x \<in> set (agenda s)"
    unfolding h(2) using set_remove1_subset [of e "agenda s"] by blast
  show "0 \<le> server_busy_time s1" using busy f by (simp add: inv_busy_def)
  show "0 \<le> service_duration e" using busy h(1) by (simp add: inv_busy_def)
  show "\<forall>x\<in>set (agenda s1). 0 \<le> service_duration x \<and> 0 \<le> elapsed_at (now s1) x"
  proof
    fix x assume "x \<in> set (agenda s1)"
    then have "x \<in> set (agenda s)" by (rule sub)
    with busy have "0 \<le> service_duration x" "0 \<le> elapsed_at (now s) x"
      by (simp_all add: inv_busy_def)
    with d f show "0 \<le> service_duration x \<and> 0 \<le> elapsed_at (now s1) x"
      using elapsed_at_mono [of "now s" "time e" x] by simp
  qed
  have split: "in_service_time s = elapsed_at (now s) e + (\<Sum>x\<leftarrow>agenda s1. elapsed_at (now s) x)"
    unfolding in_service_time_def h(2) using h(1) by (rule sum_list_map_remove1)
  have shift: "in_service_time s1
                 = (\<Sum>x\<leftarrow>agenda s1. elapsed_at (now s) x) + real (pending is_service s1) * ?d"
    unfolding in_service_time_def pending_def using f elapsed_at_shift [of "time e" "agenda s1" "now s"]
    by simp
  have e_now: "elapsed_at (now s) e + (if is_service (what e) then ?d else 0) = service_duration e"
    by (cases "what e") (simp_all add: elapsed_at_def service_duration_def)
  have count: "pending is_service s = (if is_service (what e) then 1 else 0) + pending is_service s1"
    using ne pop by (rule pending_heappop)
  from b have "int (pending is_service s) \<le> num_servers s"
    by (simp add: inv_bounds_def)
  then have "real (pending is_service s) \<le> real_of_int (num_servers s)"
    by (metis of_int_le_iff of_int_of_nat_eq)
  then have prod: "real (pending is_service s) * ?d \<le> real_of_int (num_servers s) * ?d"
    using d by (rule mult_right_mono)
  from busy have old: "server_busy_time s + in_service_time s \<le> real_of_int (num_servers s) * now s"
    by (simp add: inv_busy_def)
  have "server_busy_time s + service_duration e + in_service_time s1
          = server_busy_time s + in_service_time s + real (pending is_service s) * ?d"
    using split shift e_now count by (simp add: algebra_simps split: if_splits)
  also have "\<dots> \<le> real_of_int (num_servers s) * now s + real_of_int (num_servers s) * ?d"
    using old prod by simp
  also have "\<dots> = real_of_int (num_servers s) * time e"
    by (simp add: algebra_simps)
  finally show "server_busy_time s1 + service_duration e + in_service_time s1
           \<le> real_of_int (num_servers s1) * now s1"
    using f by simp
qed

lemma elapsed_at_other: "\<not> is_service (what e) \<Longrightarrow> elapsed_at t e = 0"
  by (cases "what e") (simp_all add: elapsed_at_def)

lemma inv_busy_fields:
  assumes "inv_busy s" and "agenda s' = agenda s" and "now s' = now s"
    and "server_busy_time s' = server_busy_time s" and "num_servers s' = num_servers s"
  shows "inv_busy s'"
  using assms by (simp add: inv_busy_def in_service_time_def)

lemma inv_busy_schedule:
  assumes "inv_busy s" and "\<not> is_service k"
  shows "inv_busy (schedule k p d s)"
proof -
  let ?e = "\<lparr>time = now s + d, priority = p, eid = next_eid s, what = k\<rparr>"
  from assms(2) have "elapsed_at (now s) ?e = 0" "service_duration ?e = 0"
    by (simp_all add: elapsed_at_other service_duration_zero)
  with assms(1) show ?thesis
    by (simp add: inv_busy_def in_service_time_def schedule_def)
qed

lemma inv_busy_schedule_service:
  assumes "inv_busy s" and "0 \<le> st"
  shows "inv_busy (schedule (Timeout_service cid a st) p st s)"
proof -
  let ?e = "\<lparr>time = now s + st, priority = p, eid = next_eid s, what = Timeout_service cid a st\<rparr>"
  have "elapsed_at (now s) ?e = 0" "service_duration ?e = st"
    by (simp_all add: elapsed_at_def service_duration_def)
  with assms show ?thesis
    by (simp add: inv_busy_def in_service_time_def schedule_def)
qed

lemma inv_busy_trigger_put:
  assumes "inv_busy s"
  shows "inv_busy (trigger_put s)"
proof (cases s rule: trigger_put_cases)
  case idle
  with assms show ?thesis by simp
next
  case (grant cid a rest)
  from assms have "inv_busy (s\<lparr>users := users s @ [cid], queue := rest\<rparr>)"
    by (rule inv_busy_fields) simp_all
  then show ?thesis unfolding grant(3) by (rule inv_busy_schedule) simp
qed

lemma inv_busy_generator_wait:
  assumes "inv_busy s" and "generator_wait rnd s = Inr s'"
  shows "inv_busy s'"
proof -
  let ?d = "rnd (draws_used s) / arrival_rate s"
  from assms(2) have s': "s' = schedule Timeout_generator NORMAL ?d (s\<lparr>draws_used := draws_used s + 1\<rparr>)"
    by (auto simp add: generator_wait_def expovariate_def timeout_def split: if_splits)
  from assms(1) have "inv_busy (s\<lparr>draws_used := draws_used s + 1\<rparr>)"
    by (rule inv_busy_fields) simp_all
  then show ?thesis unfolding s' by (rule inv_busy_schedule) simp
qed

lemma inv_busy_step:
  assumes busy: "inv_busy s" and b: "inv_bounds s" and sch: "inv_sched s"
    and st: "step rnd s = Continue s'"
  shows "inv_busy s'"
proof -
  from st obtain e s1 where ne: "agenda s \<noteq> []" and pop: "heappop s = (e, s1)"
    and c: "callback rnd (what e) s1 = Continue s'"
    by (rule step_Continue)
  note p = inv_busy_popped [OF busy b sch ne pop]
  have idle: "inv_busy s1" if "\<not> is_service (what e)"
    using p service_duration_zero [OF that] by (simp add: inv_busy_def)
  show ?thesis
  proof (cases "what e")
    case Initialize_generator
    with c have "generator_wait rnd s1 = Inr s'"
      by (simp add: callback_def lift_def split: sum.splits)
    moreover from idle Initialize_generator have "inv_busy s1" by simp
    ultimately show ?thesis by (rule inv_busy_generator_wait [rotated])
  next
    case (Initialize_customer cid)
    with idle have "inv_busy s1" by simp
    then have "inv_busy (s1\<lparr>queue_lengths := queue_lengths s1 @ [length (queue s1)],
          max_queue_length := max (max_queue_length s1) (length (queue s1)),
          queue := queue s1 @ [(cid, now s1)]\<rparr>)"
      by (rule inv_busy_fields) simp_all
    then have "inv_busy (customer_process_start cid s1)"
      unfolding customer_process_start_def Let_def by (simp add: inv_busy_trigger_put)
    with c Initialize_customer show ?thesis by (simp add: callback_def)
  next
    case Timeout_generator
    let ?s2 = "s1\<lparr>customer_id := customer_id s1 + 1, arrival_times := arrival_times s1 @ [now s1]\<rparr>"
    let ?s3 = "if int (length (queue ?s2)) < queue_capacity ?s2
               then schedule (Initialize_customer (customer_id ?s2)) URGENT 0 ?s2
               else ?s2\<lparr>customers_rejected := customers_rejected ?s2 + 1\<rparr>"
    from idle Timeout_generator have "inv_busy s1" by simp
    then have i2: "inv_busy ?s2"
      by (rule inv_busy_fields) simp_all
    have "inv_busy ?s3"
    proof (cases "int (length (queue ?s2)) < queue_capacity ?s2")
      case True
      from i2 have "inv_busy (schedule (Initialize_customer (customer_id ?s2)) URGENT 0 ?s2)"
        by (rule inv_busy_schedule) simp
      with True show ?thesis by simp
    next
      case False
      from i2 have "inv_busy (?s2\<lparr>customers_rejected := customers_rejected ?s2 + 1\<rparr>)"
        by (rule inv_busy_fields) simp_all
      with False show ?thesis by simp
    qed
    moreover from c Timeout_generator have "customer_generator rnd s1 = Inr s'"
      by (simp add: callback_def lift_def split: sum.splits)
    then have "generator_wait rnd ?s3 = Inr s'"
      by (simp only: customer_generator_def Let_def)
    ultimately show ?thesis by (rule inv_busy_generator_wait)
  next
    case (Request_granted cid a)
    let ?st = "rnd (draws_used s1) / service_rate s1"
    let ?s2 = "s1\<lparr>wait_times := wait_times s1 @ [now s1 - a], draws_used := draws_used s1 + 1,
                   service_times := service_times s1 @ [?st]\<rparr>"
    from c Request_granted have st: "0 \<le> ?st"
      and s': "s' = schedule (Timeout_service cid a ?st) NORMAL ?st ?s2"
      by (auto simp add: callback_def lift_def customer_process_service_def Let_def
          expovariate_def timeout_def split: sum.splits if_splits)
    from idle Request_granted have "inv_busy s1" by simp
    then have "inv_busy ?s2"
      by (rule inv_busy_fields) simp_all
    then show ?thesis
      unfolding s' using st by (rule inv_busy_schedule_service)
  next
    case (Timeout_service cid a st)
    let ?s2 = "s1\<lparr>system_times := system_times s1 @ [now s1 - a],
                   customers_served := customers_served s1 + 1,
                   server_busy_time := server_busy_time s1 + st,
                   users := remove1 cid (users s1)\<rparr>"
    from Timeout_service have "service_duration e = st" by (simp add: service_duration_def)
    with p have "inv_busy ?s2"
      by (simp add: inv_busy_def in_service_time_def)
    then have "inv_busy (schedule Release_done NORMAL 0 ?s2)"
      by (rule inv_busy_schedule) simp
    then have "inv_busy (schedule Process_ended NORMAL 0 (schedule Release_done NORMAL 0 ?s2))"
      by (rule inv_busy_schedule) simp
    with c Timeout_service show ?thesis
      by (simp add: callback_def customer_process_end_def Let_def)
  next
    case Release_done
    with c idle show ?thesis
      by (auto simp add: callback_def inv_busy_trigger_put)
  next
    case Process_ended
    with c idle show ?thesis by (auto simp add: callback_def)
  next
    case Stop_simulation
    with c show ?thesis by (simp add: callback_def)
  qed
qed

lemma in_service_time_nonneg:
  assumes "inv_busy s"
  shows "0 \<le> in_service_time s"
  unfolding in_service_time_def
  using assms by (intro sum_list_nonneg) (auto simp add: inv_busy_def)

text \<open>The accumulated busy time is at most the server time that has passed.\<close>

lemma inv_busy_bound:
  assumes "inv_busy s"
  shows "0 \<le> server_busy_time s"
    and "server_busy_time s \<le> real_of_int (num_servers s) * now s"
  using assms in_service_time_nonneg [OF assms] by (simp_all add: inv_busy_def)

section \<open>Queue-length metrics; the engine that admits nobody\<close>

lemma trigger_put_metrics:
  "max_queue_length (trigger_put s) = max_queue_length s"
  "queue_lengths (trigger_put s) = queue_lengths s"
  "pending is_customer_start (trigger_put s) = pending is_customer_start s"
  by (cases s rule: trigger_put_cases; simp add: schedule_def pending_def)+

lemma inv_metrics_step:
  assumes m: "inv_metrics s" and st: "step rnd s = Continue s'"
  shows "inv_metrics s'"
proof -
  from st obtain e s1 where ne: "agenda s \<noteq> []" and pop: "heappop s = (e, s1)"
    and c: "callback rnd (what e) s1 = Continue s'"
    by (rule step_Continue)
  have p: "max_queue_length s1 = fold max (queue_lengths s1) 0"
    "length (queue_lengths s1) + customers_rejected s1 + pending is_customer_start s1
       + (if is_customer_start (what e) then 1 else 0) = length (arrival_times s1)"
    using m pending_heappop [OF ne pop, of is_customer_start] heappop_fields [OF pop]
    by (simp_all add: inv_metrics_def)
  show ?thesis
  proof (cases "what e")
    case Initialize_generator
    with c p show ?thesis
      by (auto simp add: callback_def lift_def generator_wait_def expovariate_def timeout_def
          inv_metrics_def schedule_def pending_def split: sum.splits if_splits)
  next
    case (Initialize_customer cid)
    with c p show ?thesis
      by (auto simp add: callback_def customer_process_start_def Let_def inv_metrics_def
          trigger_put_metrics inv_count_trigger_put) (simp_all add: pending_def max.commute)
  next
    case Timeout_generator
    with c p show ?thesis
      by (auto simp add: callback_def lift_def customer_generator_def generator_wait_def
          expovariate_def timeout_def Let_def
          inv_metrics_def schedule_def pending_def split: sum.splits if_splits)
  next
    case (Request_granted cid a)
    with c p show ?thesis
      by (auto simp add: callback_def lift_def customer_process_service_def
          expovariate_def timeout_def Let_def
          inv_metrics_def schedule_def pending_def split: sum.splits if_splits)
  next
    case (Timeout_service cid a st)
    with c p show ?thesis
      by (auto simp add: callback_def customer_process_end_def Let_def
          inv_metrics_def schedule_def pending_def)
  next
    case Release_done
    with c p show ?thesis
      by (auto simp add: callback_def inv_metrics_def trigger_put_metrics inv_count_trigger_put)
  next
    case Process_ended
    with c p show ?thesis by (auto simp add: callback_def inv_metrics_def)
  next
    case Stop_simulation
    with c show ?thesis by (simp add: callback_def)
  qed
qed

lemma inv_idle_step:
  assumes i: "inv_idle s" and st: "step rnd s = Continue s'"
  shows "inv_idle s'"
proof (cases "queue_capacity s \<le> 0")
  case False
  with step_config [of rnd s s'] st show ?thesis by (simp add: inv_idle_def)
next
  case True
  from st obtain e s1 where ne: "agenda s \<noteq> []" and pop: "heappop s = (e, s1)"
    and c: "callback rnd (what e) s1 = Continue s'"
    by (rule step_Continue)
  from True i have z: "queue s = []" "pending is_customer_start s = 0" "pending is_granted s = 0"
    "pending is_service s = 0" "customers_served s = 0"
    by (simp_all add: inv_idle_def)
  have p: "queue s1 = []" "pending is_customer_start s1 = 0" "pending is_granted s1 = 0"
    "pending is_service s1 = 0" "customers_served s1 = 0" "queue_capacity s1 \<le> 0"
    "\<not> is_customer_start (what e)" "\<not> is_granted (what e)" "\<not> is_service (what e)"
    using z True pending_heappop [OF ne pop, of is_customer_start]
      pending_heappop [OF ne pop, of is_granted] pending_heappop [OF ne pop, of is_service]
      heappop_fields [OF pop]
    by (simp_all split: if_splits)
  show ?thesis
  proof (cases "what e")
    case Initialize_generator
    with c p show ?thesis
      by (auto simp add: callback_def lift_def generator_wait_def expovariate_def timeout_def
          inv_idle_def schedule_def pending_def split: sum.splits if_splits)
  next
    case Timeout_generator
    with c p show ?thesis
      by (auto simp add: callback_def lift_def customer_generator_def generator_wait_def
          expovariate_def timeout_def Let_def
          inv_idle_def schedule_def pending_def split: sum.splits if_splits)
  next
    case Release_done
    with c p show ?thesis
      by (auto simp add: callback_def trigger_put_def inv_idle_def)
  next
    case Process_ended
    with c p show ?thesis by (auto simp add: callback_def inv_idle_def)
  next
    case Stop_simulation
    with c show ?thesis by (simp add: callback_def)
  qed (use p in simp_all)
qed

lemma inv_step: "inv s \<Longrightarrow> step rnd s = Continue s' \<Longrightarrow> inv s'"
  unfolding inv_def
  by (blast intro: inv_count_step inv_sched_step inv_horizon_step inv_bounds_step
      inv_busy_step inv_metrics_step inv_idle_step)

lemma start_shape:
  assumes "start (cafeteria_simulation lam mu c t cap) = Inr s0"
  shows "0 < c" and "0 < t"
    and "s0 = (cafeteria_simulation lam mu c t cap)
           \<lparr>next_eid := 2,
            agenda := [\<lparr>time = 0, priority = URGENT, eid = 0, what = Initialize_generator\<rparr>,
                       \<lparr>time = t, priority = URGENT, eid = 1, what = Stop_simulation\<rparr>]\<rparr>"
  using assms
  by (auto simp add: start_def new_environment_def cafeteria_simulation_def schedule_def Let_def
      split: if_splits)

lemma start_inv:
  assumes "start (cafeteria_simulation lam mu c t cap) = Inr s0"
  shows "inv s0" and "sim_time s0 = t" and "num_servers s0 = c" and "queue_capacity s0 = cap"
    and "0 < c" and "0 < t"
proof -
  note sh = start_shape [OF assms]
  show "0 < c" "0 < t" by fact+
  show "sim_time s0 = t" "num_servers s0 = c" "queue_capacity s0 = cap"
    unfolding sh(3) by (simp_all add: cafeteria_simulation_def)
  have "inv_count s0"
    unfolding sh(3) by (simp add: cafeteria_simulation_def inv_count_def in_flight_def pending_def)
  moreover have "inv_sched s0"
    unfolding sh(3) using sh(2)
    by (simp add: cafeteria_simulation_def inv_sched_def pending_def)
  moreover have "inv_horizon s0"
    unfolding sh(3) by (simp add: cafeteria_simulation_def inv_horizon_def)
  moreover have "inv_bounds s0"
    unfolding sh(3) using sh(1)
    by (simp add: cafeteria_simulation_def inv_bounds_def pending_def)
  moreover have "inv_busy s0"
    unfolding sh(3)
    by (simp add: cafeteria_simulation_def inv_busy_def in_service_time_def elapsed_at_def
        service_duration_def)
  moreover have "inv_metrics s0"
    unfolding sh(3) by (simp add: cafeteria_simulation_def inv_metrics_def pending_def)
  moreover have "inv_idle s0"
    unfolding sh(3) by (simp add: cafeteria_simulation_def inv_idle_def pending_def)
  ultimately show "inv s0" by (simp add: inv_def)
qed

lemma steps_invariant:
  assumes "P s0" and "\<And>u v. P u \<Longrightarrow> step rnd u = Continue v \<Longrightarrow> P v"
  shows "steps n rnd s0 = Continue s \<Longrightarrow> P s"
    and "steps n rnd s0 = Stopped s \<Longrightarrow> \<exists>u. P u \<and> step rnd u = Stopped s"
  using assms(1)
proof (induction n arbitrary: s0)
  case 0
  { case 1 then show ?case by simp }
  { case 2 then show ?case by simp }
next
  case (Suc n)
  { case 1
    then obtain v where v: "step rnd s0 = Continue v" "steps n rnd v = Continue s"
      by (auto split: step_result.splits)
    from 1(2) v(1) have "P v" by (rule assms(2))
    with Suc.IH(1) v(2) show ?case by blast }
  { case 2
    show ?case
    proof (cases "step rnd s0")
      case (Continue v)
      with 2 have "steps n rnd v = Stopped s" by simp
      moreover from 2(2) Continue have "P v" by (rule assms(2))
      ultimately show ?thesis using Suc.IH(2) by blast
    next
      case (Stopped v)
      with 2 show ?thesis by auto
    next
      case (Failed e)
      with 2 show ?thesis by simp
    qed }
qed

text \<open>The state in which \<^verbatim>\<open>env.run\<close> returns comes from a reachable state by the pop of the
  stop event.\<close>

lemma run_until_Returned:
  assumes "run_until fuel rnd (cafeteria_simulation lam mu c t cap) = Returned s"
  obtains u e where "inv u" and "sim_time u = t" and "num_servers u = c"
    and "queue_capacity u = cap" and "agenda u \<noteq> []" and "heappop u = (e, s)"
    and "what e = Stop_simulation" and "0 < c" and "0 < t"
proof -
  from assms obtain s0 where s0: "start (cafeteria_simulation lam mu c t cap) = Inr s0"
    and run: "env_run fuel rnd s0 = Returned s"
    by (auto simp add: run_until_def split: sum.splits)
  let ?P = "\<lambda>u. inv u \<and> sim_time u = t \<and> num_servers u = c \<and> queue_capacity u = cap"
  have "\<exists>u. ?P u \<and> step rnd u = Stopped s"
  proof (rule env_run_Returned [OF run])
    show "?P s0" using start_inv [OF s0] by simp
  next
    fix u v assume "?P u" and "step rnd u = Continue v"
    then show "?P v" using inv_step [of u rnd v] step_config [of rnd u v] by simp
  qed
  then obtain u where u: "?P u" and st: "step rnd u = Stopped s" by blast
  from st obtain e where "agenda u \<noteq> []" and "heappop u = (e, s)" and "what e = Stop_simulation"
    by (rule step_Stopped)
  with u start_inv(5,6) [OF s0] show ?thesis by (intro that [of u e]) simp_all
qed

text \<open>
  Claim C1, as the engine has it. When \<^verbatim>\<open>env.run\<close> returns, every recorded arrival is a
  customer served, a customer rejected, or a customer admitted and not yet through:
  started but not yet at its request, waiting in the queue, granted a server, or in
  service. So served plus rejected is at most the number of arrivals, with equality
  exactly when nobody is in flight at the horizon. Every arrival lies in \<open>[0, sim_time)\<close>.
\<close>

theorem arrivals_served_rejected_or_in_flight:
  assumes "run_until fuel rnd (cafeteria_simulation lam mu c t cap) = Returned s"
  shows "length (arrival_times s) = customers_served s + customers_rejected s + in_flight s
       \<and> customers_served s + customers_rejected s \<le> length (arrival_times s)
       \<and> (\<forall>a\<in>set (arrival_times s). 0 \<le> a \<and> a < t)"
proof -
  from assms obtain u e where u: "inv u" "sim_time u = t" and ne: "agenda u \<noteq> []"
    and pop: "heappop u = (e, s)" and stop: "what e = Stop_simulation"
    by (rule run_until_Returned)
  from u(1) have "inv_count u" "inv_horizon u" by (simp_all add: inv_def)
  from inv_count_popped(1) [OF \<open>inv_count u\<close> ne pop] stop
  have 1: "length (arrival_times s) = customers_served s + customers_rejected s + in_flight s"
    by simp
  from \<open>inv_horizon u\<close> u(2) heappop_fields [OF pop]
  have 2: "\<forall>a\<in>set (arrival_times s). 0 \<le> a \<and> a < t"
    by (simp add: inv_horizon_def)
  from 1 2 show ?thesis by simp
qed


section \<open>Arrivals, served, rejected and in flight\<close>

lemma run_example_in_service:
  "run_until 40 (\<lambda>_. 1) (cafeteria_simulation 1 1 2 (7 / 2) 1) = Returned example_in_service"
  by code_simp


text \<open>
  With every draw equal to 1, arrival rate 1, service rate 1, two servers, horizon 3.5 and
  capacity 1, three customers arrive (at 1, 2, 3); two are served, none is rejected, and
  the third is in service until time 4.
\<close>

theorem served_plus_rejected_counterexample:
  "run_until 40 (\<lambda>_. 1) (cafeteria_simulation 1 1 2 (7 / 2) 1) = Returned example_in_service
   \<and> customers_served example_in_service + customers_rejected example_in_service = 2
   \<and> length (arrival_times example_in_service) = 3"
  using run_example_in_service by (simp add: example_in_service_def)

theorem arrivals_served_rejected_or_in_flight_witness:
  "run_until 40 (\<lambda>_. 1) (cafeteria_simulation 1 1 2 (7 / 2) 1) = Returned example_in_service
   \<and> length (arrival_times example_in_service)
       = customers_served example_in_service + customers_rejected example_in_service
         + in_flight example_in_service
   \<and> in_flight example_in_service = 1"
  using arrivals_served_rejected_or_in_flight [OF run_example_in_service] run_example_in_service
  by (simp add: example_in_service_def in_flight_def pending_def)



section \<open>The result of a completed run\<close>



text \<open>What holds of the state in which a run returns.\<close>

lemma run_until_final:
  assumes "run_until fuel rnd (cafeteria_simulation lam mu c t cap) = Returned s"
  shows "sim_time s = t" and "num_servers s = c" and "queue_capacity s = cap"
    and "0 < c" and "0 < t"
    and "0 \<le> server_busy_time s" and "server_busy_time s \<le> real_of_int c * t"
    and "max_queue_length s = fold max (queue_lengths s) 0"
    and "length (arrival_times s) = length (queue_lengths s) + customers_rejected s"
    and "cap \<le> 0 \<longrightarrow> queue s = [] \<and> in_flight s = 0 \<and> customers_served s = 0"
    and "length (arrival_times s) = customers_served s + customers_rejected s + in_flight s"
proof -
  from assms obtain u e where u: "inv u" "sim_time u = t" "num_servers u = c"
    "queue_capacity u = cap" and ne: "agenda u \<noteq> []"
    and pop: "heappop u = (e, s)" and stop: "what e = Stop_simulation"
    and pos: "0 < c" "0 < t"
    by (rule run_until_Returned)
  note f = heappop_fields [OF pop]
  from u(1) have sch: "inv_sched u" and b: "inv_bounds u" and busy: "inv_busy u"
    and m: "inv_metrics u" and i: "inv_idle u"
    by (simp_all add: inv_def)
  note h = heappop_least [OF ne pop]
  show "sim_time s = t" "num_servers s = c" "queue_capacity s = cap"
    using u f by simp_all
  show "0 < c" "0 < t" by fact+
  from sch h(1) stop u(2) have te: "time e = t" by (auto simp add: inv_sched_def)
  note bp = inv_busy_popped [OF busy b sch ne pop]
  show "0 \<le> server_busy_time s" by (rule bp(1))
  have "0 \<le> in_service_time s"
    unfolding in_service_time_def using bp(3) by (intro sum_list_nonneg) auto
  moreover have "service_duration e = 0"
    using stop by (simp add: service_duration_def)
  ultimately show "server_busy_time s \<le> real_of_int c * t"
    using bp(4) f u te by simp
  show "max_queue_length s = fold max (queue_lengths s) 0"
    using m f by (simp add: inv_metrics_def)
  have z: "pending is_customer_start s = 0"
    using inv_sched_no_start_left [OF sch ne pop] by (rule pending_customer_start_zero)
  have pc: "pending P u = pending P s" if "\<not> P Stop_simulation" for P
    using pending_heappop [OF ne pop, of P] that stop by simp
  show "length (arrival_times s) = length (queue_lengths s) + customers_rejected s"
    using m f z pc [of is_customer_start] by (simp add: inv_metrics_def)
  show "cap \<le> 0 \<longrightarrow> queue s = [] \<and> in_flight s = 0 \<and> customers_served s = 0"
    using i f u(4) pc [of is_customer_start] pc [of is_granted] pc [of is_service]
    by (simp add: inv_idle_def in_flight_def)
  from u(1) have "inv_count u" by (simp add: inv_def)
  from inv_count_popped(1) [OF this ne pop] stop
  show "length (arrival_times s) = customers_served s + customers_rejected s + in_flight s"
    by simp
qed

text \<open>
  Claim C6. A run that returns has \<open>sim_time > 0\<close> and \<open>num_servers \<ge> 1\<close>, and the
  utilization it reports, the accumulated service time of the completed services divided
  by \<open>num_servers \<times> sim_time\<close> and rounded to 4 decimals, lies in \<open>[0, 1]\<close>.
\<close>

theorem server_utilization_in_unit_interval:
  assumes "run_until fuel rnd (cafeteria_simulation lam mu c t cap) = Returned s"
  shows "0 < t \<and> 1 \<le> c
       \<and> server_utilization (calculate_metrics s)
           = py_round (server_busy_time s / (real_of_int c * t)) 4
       \<and> 0 \<le> server_utilization (calculate_metrics s)
       \<and> server_utilization (calculate_metrics s) \<le> 1"
proof -
  note f = run_until_final [OF assms]
  from f(4,5) have pos: "0 < real_of_int c * t" by simp
  then have u: "server_utilization (calculate_metrics s)
                  = py_round (server_busy_time s / (real_of_int c * t)) 4"
    using f(1,2) by (simp add: calculate_metrics_def Let_def)
  from pos f(6,7) have "0 \<le> server_busy_time s / (real_of_int c * t)"
    and "server_busy_time s / (real_of_int c * t) \<le> 1"
    by simp_all
  then have "py_round 0 4 \<le> py_round (server_busy_time s / (real_of_int c * t)) 4"
    and "py_round (server_busy_time s / (real_of_int c * t)) 4 \<le> py_round 1 4"
    by (simp_all only: py_round_mono)
  with u f(4,5) show ?thesis by (simp add: py_round_zero py_round_one)
qed


text \<open>
  Claim C4. In every state of a run, between any two events and when it has stopped, at
  most \<open>num_servers\<close> customers hold a server and the waiting line is no longer than
  the queue capacity (a capacity below 0 leaves the line empty).
\<close>

theorem servers_and_queue_bounded:
  assumes "start (cafeteria_simulation lam mu c t cap) = Inr s0"
    and "steps n rnd s0 = Continue s \<or> steps n rnd s0 = Stopped s"
  shows "int (length (users s)) \<le> c
       \<and> int (length (queue s)) \<le> max 0 cap
       \<and> (0 \<le> cap \<longrightarrow> int (length (queue s)) \<le> cap)"
proof -
  let ?P = "\<lambda>u. inv u \<and> num_servers u = c \<and> queue_capacity u = cap"
  have base: "?P s0" using start_inv [OF assms(1)] by simp
  have pres: "?P v" if "?P u" and "step rnd u = Continue v" for u v
    using that inv_step [of u rnd v] step_config [of rnd u v] by simp
  have bound: "int (length (users u)) \<le> c \<and> int (length (queue u)) \<le> max 0 cap" if "?P u" for u
    using that by (auto simp add: inv_def inv_bounds_def)
  from assms(2) have "int (length (users s)) \<le> c \<and> int (length (queue s)) \<le> max 0 cap"
  proof
    assume "steps n rnd s0 = Continue s"
    with base pres have "?P s" by (rule steps_invariant(1))
    then show ?thesis by (rule bound)
  next
    assume "steps n rnd s0 = Stopped s"
    with base pres have "\<exists>u. ?P u \<and> step rnd u = Stopped s" by (rule steps_invariant(2))
    then obtain u where u: "?P u" and st: "step rnd u = Stopped s" by blast
    from st obtain e where "heappop u = (e, s)" by (rule step_Stopped)
    from heappop_fields(1,2) [OF this] bound [OF u] show ?thesis by simp
  qed
  then show ?thesis by auto
qed

text \<open>
  Claim C2, as the engine has it. Nothing is validated and there is no configuration
  error of the engine's own. A number of servers or a horizon that is not positive makes
  \<^verbatim>\<open>run\<close> raise the library's ValueError before any event; an arrival rate of 0 raises
  ZeroDivisionError at the generator's first step; a negative queue capacity raises
  nothing: a run that returns has rejected every arrival and served nobody.
\<close>

theorem configuration_is_not_validated:
  "(c \<le> 0 \<or> t \<le> 0 \<longrightarrow> run fuel rnd (cafeteria_simulation lam mu c t cap) = Raised ValueError)
   \<and> (0 < c \<and> 0 < t \<longrightarrow>
        run (Suc fuel) rnd (cafeteria_simulation 0 mu c t cap) = Raised ZeroDivisionError)
   \<and> (cap < 0 \<and> run_until fuel rnd (cafeteria_simulation lam mu c t cap) = Returned s \<longrightarrow>
        run fuel rnd (cafeteria_simulation lam mu c t cap) = Returned (calculate_metrics s)
        \<and> customers_served s = 0 \<and> customers_rejected s = length (arrival_times s))"
proof (intro conjI impI)
  assume "c \<le> 0 \<or> t \<le> 0"
  then show "run fuel rnd (cafeteria_simulation lam mu c t cap) = Raised ValueError"
    by (auto simp add: run_def run_until_def start_def new_environment_def
        cafeteria_simulation_def schedule_def Let_def)
next
  assume pos: "0 < c \<and> 0 < t"
  then have "start (cafeteria_simulation 0 mu c t cap)
      = Inr ((cafeteria_simulation 0 mu c t cap)
           \<lparr>next_eid := 2,
            agenda := [\<lparr>time = 0, priority = URGENT, eid = 0, what = Initialize_generator\<rparr>,
                       \<lparr>time = t, priority = URGENT, eid = 1, what = Stop_simulation\<rparr>]\<rparr>)"
    by (simp add: start_def new_environment_def cafeteria_simulation_def schedule_def Let_def)
  moreover have "step rnd ((cafeteria_simulation 0 mu c t cap)
           \<lparr>next_eid := 2,
            agenda := [\<lparr>time = 0, priority = URGENT, eid = 0, what = Initialize_generator\<rparr>,
                       \<lparr>time = t, priority = URGENT, eid = 1, what = Stop_simulation\<rparr>]\<rparr>)
      = Failed ZeroDivisionError"
    using pos
    by (simp add: step_def heappop_def heap_key_def Let_def callback_def lift_def
        generator_wait_def expovariate_def cafeteria_simulation_def)
  ultimately show "run (Suc fuel) rnd (cafeteria_simulation 0 mu c t cap) = Raised ZeroDivisionError"
    by (simp add: run_def run_until_def)
next
  assume a: "cap < 0 \<and> run_until fuel rnd (cafeteria_simulation lam mu c t cap) = Returned s"
  then show "run fuel rnd (cafeteria_simulation lam mu c t cap) = Returned (calculate_metrics s)"
    by (simp add: run_def)
  from a have r: "run_until fuel rnd (cafeteria_simulation lam mu c t cap) = Returned s" by simp
  from run_until_final(10) [OF r] a
  show z: "customers_served s = 0" by simp
  from run_until_final(10,11) [OF r] a
  show "customers_rejected s = length (arrival_times s)" by simp
qed

section \<open>The statements at concrete runs\<close>

lemma run_example_negative_capacity:
  "run_until 40 (\<lambda>_. 1) (cafeteria_simulation 1 (1 / 10) 1 5 (- 1))
     = Returned example_negative_capacity"
  by code_simp

text \<open>
  With queue capacity -1 (every draw 1, arrival rate 1, service rate 1/10, one server,
  horizon 5) \<^verbatim>\<open>run\<close> returns a result: nobody served, four rejected.
\<close>

theorem negative_capacity_counterexample:
  "run 40 (\<lambda>_. 1) (cafeteria_simulation 1 (1 / 10) 1 5 (- 1))
     = Returned (calculate_metrics example_negative_capacity)
   \<and> out_customers_served (calculate_metrics example_negative_capacity) = 0
   \<and> out_customers_rejected (calculate_metrics example_negative_capacity) = 4"
  using run_example_negative_capacity
  by (simp add: run_def calculate_metrics_def Let_def example_negative_capacity_def)

theorem configuration_is_not_validated_witness:
  "run 40 (\<lambda>_. 1) (cafeteria_simulation 1 1 0 5 1) = Raised ValueError
   \<and> run 40 (\<lambda>_. 1) (cafeteria_simulation 1 1 1 0 1) = Raised ValueError
   \<and> run (Suc 39) (\<lambda>_. 1) (cafeteria_simulation 0 1 1 5 1) = Raised ZeroDivisionError
   \<and> run 40 (\<lambda>_. 1) (cafeteria_simulation 1 (1 / 10) 1 5 (- 1))
       = Returned (calculate_metrics example_negative_capacity)
   \<and> customers_served example_negative_capacity = 0
   \<and> customers_rejected example_negative_capacity
       = length (arrival_times example_negative_capacity)"
  using configuration_is_not_validated [of 0 5 40 "\<lambda>_. 1" 1 1 1 example_negative_capacity]
    configuration_is_not_validated [of 1 0 40 "\<lambda>_. 1" 1 1 1 example_negative_capacity]
    configuration_is_not_validated [of 1 5 39 "\<lambda>_. 1" 1 1 1 example_negative_capacity]
    configuration_is_not_validated [of 1 5 40 "\<lambda>_. 1" 1 "1 / 10" "- 1" example_negative_capacity]
    run_example_negative_capacity
  by simp

theorem servers_and_queue_bounded_witness:
  "start (cafeteria_simulation 1 (1 / 10) 1 5 1)
     = Inr (projr (start (cafeteria_simulation 1 (1 / 10) 1 5 1)))
   \<and> steps 40 (\<lambda>_. 1) (projr (start (cafeteria_simulation 1 (1 / 10) 1 5 1)))
       = Stopped example_long_service
   \<and> int (length (users example_long_service)) \<le> 1
   \<and> int (length (queue example_long_service)) \<le> 1
   \<and> length (queue example_long_service) = 1"
proof -
  have s: "start (cafeteria_simulation 1 (1 / 10) 1 5 1)
             = Inr (projr (start (cafeteria_simulation 1 (1 / 10) 1 5 1)))"
    by code_simp
  have r: "steps 40 (\<lambda>_. 1) (projr (start (cafeteria_simulation 1 (1 / 10) 1 5 1)))
             = Stopped example_long_service"
    by code_simp
  from servers_and_queue_bounded [OF s disjI2, OF r] s r show ?thesis
    by (simp add: example_long_service_def)
qed

theorem server_utilization_in_unit_interval_witness:
  "run_until 40 (\<lambda>_. 1) (cafeteria_simulation 1 1 2 (7 / 2) 1) = Returned example_in_service
   \<and> server_utilization (calculate_metrics example_in_service) = py_round (2 / 7) 4
   \<and> 0 \<le> server_utilization (calculate_metrics example_in_service)
   \<and> server_utilization (calculate_metrics example_in_service) \<le> 1"
  using server_utilization_in_unit_interval [OF run_example_in_service] run_example_in_service
  by (simp add: example_in_service_def)


end
